theory Spec2Isabelle
  imports Main "HOL-Library.Word"
begin

section \<open>Length chunker (\<open>internal/services/document\<close>, \<open>DocumentProcessor.splitByLength\<close>)\<close>

text \<open>
  A Go \<open>string\<close> is a sequence of bytes and \<open>len\<close> counts bytes, so a Go string is a
  \<open>string\<close> (a list of 8-bit \<open>char\<close>s) here. Go's \<open>int\<close> is modelled by \<open>int\<close>: inside
  the loop \<open>0 \<le> start < len(content)\<close>, and the loop is entered only when
  \<open>chunkSize < len(content)\<close>, so for \<open>chunkOverlap \<ge> 0\<close> none of \<open>start + chunkSize\<close>,
  \<open>end - chunkOverlap\<close>, \<open>start + 1\<close> leaves the 64-bit range. The model is exact for
  \<open>chunkOverlap \<ge> 0\<close>, and every statement below about the loop assumes it: for a
  negative overlap close to the least 64-bit integer \<open>end - chunkOverlap\<close> wraps in Go
  and does not here.

  A failed index or slice expression panics in Go; the panic is a value here.
\<close>

datatype panic = IndexOutOfRange | SliceBoundsOutOfRange

text \<open>\<open>content[i] == ' ' || content[i] == '\n'\<close>\<close>

definition isBoundary :: "char \<Rightarrow> bool" where
  "isBoundary c = (c = CHR '' '' \<or> c = CHR 0x0A)"

text \<open>
  The inner loop of \<open>splitByLength\<close>:
  \<^verbatim>\<open>for i := end; i > start && i > end-50; i-- {
      if content[i] == ' ' || content[i] == '\n' { end = i; break } }\<close>
  \<open>end\<close> is assigned only just before \<open>break\<close>, so the loop condition always sees
  the window's original \<open>end\<close>. The result is the value of \<open>end\<close> after the loop.
\<close>

function findBoundary :: "string \<Rightarrow> int \<Rightarrow> int \<Rightarrow> int \<Rightarrow> panic + int" where
  "findBoundary content start end i =
     (if i > start \<and> i > end - 50 then
        (if i < 0 \<or> int (length content) \<le> i then Inl IndexOutOfRange
         else if isBoundary (content ! nat i) then Inr i
         else findBoundary content start end (i - 1))
      else Inr end)"
  by pat_completeness auto
termination
  by (relation "measure (\<lambda>(content, start, end, i). nat (i - start))") auto

declare findBoundary.simps [simp del]

text \<open>The slice expression \<open>content[start:end]\<close>, which panics unless
  \<open>0 \<le> start \<le> end \<le> len(content)\<close>.\<close>

definition slice :: "string \<Rightarrow> int \<Rightarrow> int \<Rightarrow> panic + string" where
  "slice content start end =
     (if 0 \<le> start \<and> start \<le> end \<and> end \<le> int (length content)
      then Inr (take (nat (end - start)) (drop (nat start) content))
      else Inl SliceBoundsOutOfRange)"

text \<open>
  \<^verbatim>\<open>nextStart := end - p.chunkOverlap
  if nextStart <= start { nextStart = start + 1 }\<close>
\<close>

definition nextStart :: "int \<Rightarrow> int \<Rightarrow> int \<Rightarrow> int" where
  "nextStart start end chunkOverlap =
     (let n = end - chunkOverlap in if n \<le> start then start + 1 else n)"

text \<open>
  The computation of the window's \<open>end\<close> at the head of the loop body:
  \<^verbatim>\<open>end := start + p.chunkSize
  if end > len(content) { end = len(content) }
  if end < len(content) { <inner loop> }\<close>
\<close>

definition windowEnd :: "string \<Rightarrow> int \<Rightarrow> int \<Rightarrow> panic + int" where
  "windowEnd content start chunkSize =
     (let end0 = start + chunkSize;
          end1 = (if end0 > int (length content) then int (length content) else end0)
      in if end1 < int (length content) then findBoundary content start end1 end1
         else Inr end1)"

text \<open>
  The outer loop \<open>for start < len(content) { ... }\<close>. Its state is the three locals
  \<open>start\<close>, \<open>iteration\<close> and \<open>chunks\<close>; the result is the final \<open>chunks\<close> together with
  the final value of the counter \<open>iteration\<close> (the source returns \<open>chunks\<close> only; the
  counter is kept so that the number of iterations can be stated). When the counter
  exceeds 1000 the source logs an error and leaves the loop with \<open>break\<close>, so the
  chunks collected so far are returned.
  \<open>trimSpace\<close> stands for \<open>strings.TrimSpace\<close> of the Go library.
\<close>

function splitLoop ::
  "(string \<Rightarrow> string) \<Rightarrow> int \<Rightarrow> int \<Rightarrow> string \<Rightarrow> int \<Rightarrow> nat \<Rightarrow> string list
     \<Rightarrow> panic + (string list \<times> nat)" where
  "splitLoop trimSpace chunkSize chunkOverlap content start iteration chunks =
     (if start < int (length content) then
        (if iteration + 1 > 1000 then Inr (chunks, iteration + 1)
         else
           (case windowEnd content start chunkSize of
              Inl p \<Rightarrow> Inl p
            | Inr end \<Rightarrow>
               (case slice content start end of
                  Inl p \<Rightarrow> Inl p
                | Inr chunk \<Rightarrow>
                   (if end \<ge> int (length content)
                    then Inr (chunks @ [trimSpace chunk], iteration + 1)
                    else splitLoop trimSpace chunkSize chunkOverlap content
                           (nextStart start end chunkOverlap) (iteration + 1)
                           (chunks @ [trimSpace chunk])))))
      else Inr (chunks, iteration))"
  by pat_completeness auto
termination
  by (relation "measure (\<lambda>(trimSpace, chunkSize, chunkOverlap, content, start, iteration, chunks).
                    nat (int (length content) - start))")
     (auto simp: nextStart_def Let_def)

declare splitLoop.simps [simp del]

text \<open>\<open>splitByLength\<close> with the final iteration counter, and \<open>splitByLength\<close> itself.\<close>

definition splitByLengthCount ::
  "(string \<Rightarrow> string) \<Rightarrow> int \<Rightarrow> int \<Rightarrow> string \<Rightarrow> panic + (string list \<times> nat)" where
  "splitByLengthCount trimSpace chunkSize chunkOverlap content =
     (if int (length content) \<le> chunkSize then Inr ([content], 0)
      else splitLoop trimSpace chunkSize chunkOverlap content 0 0 [])"

definition splitByLength ::
  "(string \<Rightarrow> string) \<Rightarrow> int \<Rightarrow> int \<Rightarrow> string \<Rightarrow> panic + string list" where
  "splitByLength trimSpace chunkSize chunkOverlap content =
     map_sum id fst (splitByLengthCount trimSpace chunkSize chunkOverlap content)"

text \<open>
  An instance of \<open>strings.TrimSpace\<close> for evaluation at concrete inputs: it removes
  the leading and trailing ASCII white space \<open>\t \n \v \f \r\<close> and space, which is what
  \<open>strings.TrimSpace\<close> does on ASCII text.
\<close>

definition isAsciiSpace :: "char \<Rightarrow> bool" where
  "isAsciiSpace c =
     (c = CHR 0x09 \<or> c = CHR 0x0A \<or> c = CHR 0x0B \<or> c = CHR 0x0C \<or> c = CHR 0x0D \<or> c = CHR '' '')"

definition trimSpaceASCII :: "string \<Rightarrow> string" where
  "trimSpaceASCII s = rev (dropWhile isAsciiSpace (rev (dropWhile isAsciiSpace s)))"

section \<open>Embedding cache and embedding service (\<open>internal/db/redis.go\<close>, \<open>internal/services/rag/embedding.go\<close>)\<close>

text \<open>
  \<^verbatim>\<open>func hashString(s string) uint64 {
      h := uint64(0)
      for i := 0; i < len(s); i++ { h = h*31 + uint64(s[i]) }
      return h }\<close>
  The arithmetic is that of \<open>uint64\<close>: it wraps modulo \<open>2 ^ 64\<close>.
\<close>

definition hashString :: "string \<Rightarrow> 64 word" where
  "hashString s = foldl (\<lambda>h c. h * 31 + of_char c) 0 s"

text \<open>The verb \<open>%x\<close> of \<open>fmt.Sprintf\<close> on an unsigned integer: lower-case hexadecimal
  without leading zeros.\<close>

definition hexDigit :: "nat \<Rightarrow> char" where
  "hexDigit d = ''0123456789abcdef'' ! (d mod 16)"

fun hexDigits :: "nat \<Rightarrow> string" where
  "hexDigits n = (if n < 16 then [hexDigit n] else hexDigits (n div 16) @ [hexDigit (n mod 16)])"

declare hexDigits.simps [simp del]

text \<open>\<open>key := fmt.Sprintf("embedding:%x", hashString(text))\<close>, the key used by both
  \<open>CacheEmbedding\<close> and \<open>GetCachedEmbedding\<close>.\<close>

definition embeddingKey :: "string \<Rightarrow> string" where
  "embeddingKey text = ''embedding:'' @ hexDigits (unat (hashString text))"

text \<open>
  A Go slice \<open>[]float32\<close> is \<open>nil\<close> or a sequence; \<open>len(nil) = 0\<close>. The source tests
  \<open>cached != nil\<close>, so \<open>nil\<close> and the empty slice are kept apart: \<open>None\<close> is \<open>nil\<close>.
  The type \<open>'v\<close> of the components is left open.
\<close>

type_synonym 'v slice = "'v list option"

definition len :: "'v slice \<Rightarrow> nat" where
  "len s = (case s of None \<Rightarrow> 0 | Some xs \<Rightarrow> length xs)"

text \<open>
  The Redis store under the keys \<open>embedding:...\<close>. A stored value is the JSON text
  written by \<open>json.Marshal\<close>; what matters is how \<open>json.Unmarshal\<close> into a
  \<open>[]float32\<close> reads it: as a vector (\<open>null\<close> gives the \<open>nil\<close> slice), or not at all.
  \<open>up\<close> tells whether the server answers; when it does not, every call returns an error.
\<close>

datatype 'v cached = JsonVector "'v slice" | NotAVector

record 'v redis =
  up :: bool
  kv :: "string \<Rightarrow> 'v cached option"

datatype cache_error = RedisError | UnmarshalError

text \<open>
  \<open>GetCachedEmbedding\<close>: \<open>redis.Nil\<close> (no such key) gives \<open>(nil, nil)\<close>, any other error
  of the \<open>Get\<close> and a failed \<open>Unmarshal\<close> are returned.
\<close>

definition GetCachedEmbedding :: "'v redis \<Rightarrow> string \<Rightarrow> cache_error + 'v slice" where
  "GetCachedEmbedding r text =
     (if \<not> up r then Inl RedisError
      else case kv r (embeddingKey text) of
             None \<Rightarrow> Inr None
           | Some NotAVector \<Rightarrow> Inl UnmarshalError
           | Some (JsonVector v) \<Rightarrow> Inr v)"

text \<open>\<open>CacheEmbedding\<close>: marshal the vector and \<open>Set\<close> it under the key (the expiry of
  7 days is not modelled).\<close>

definition CacheEmbedding :: "'v redis \<Rightarrow> string \<Rightarrow> 'v slice \<Rightarrow> (cache_error + unit) \<times> 'v redis" where
  "CacheEmbedding r text embedding =
     (if \<not> up r then (Inl RedisError, r)
      else (Inr (), r\<lparr>kv := (kv r)(embeddingKey text \<mapsto> JsonVector embedding)\<rparr>))"

text \<open>
  The embedding service. The Ollama server is outside the repository: \<open>ollama\<close> gives,
  for a prompt, the outcome of the HTTP exchange of \<open>generateEmbedding\<close>, one
  constructor for each of its exits before the check of the dimension.
\<close>

datatype 'v ollama_reply =
    MarshalFailed | CreateRequestFailed | CallFailed | StatusNotOK | DecodeFailed
  | Embedding "'v slice"

datatype embed_error =
    FailedToMarshalRequest | FailedToCreateRequest | FailedToCallOllama | OllamaAPIError
  | FailedToDecodeResponse
  | DimensionMismatch nat int
  | FailedToEmbedText nat embed_error

record 'v EmbeddingService =
  dimension :: int
  useCache :: bool
  ollama :: "string \<Rightarrow> 'v ollama_reply"

text \<open>\<open>generateEmbedding\<close>; its last check is
  \<^verbatim>\<open>if len(result.Embedding) != s.dimension { return nil, fmt.Errorf("unexpected embedding dimension: got %d, expected %d", ...) }\<close>\<close>

definition generateEmbedding :: "'v EmbeddingService \<Rightarrow> string \<Rightarrow> embed_error + 'v slice" where
  "generateEmbedding s text =
     (case ollama s text of
        MarshalFailed \<Rightarrow> Inl FailedToMarshalRequest
      | CreateRequestFailed \<Rightarrow> Inl FailedToCreateRequest
      | CallFailed \<Rightarrow> Inl FailedToCallOllama
      | StatusNotOK \<Rightarrow> Inl OllamaAPIError
      | DecodeFailed \<Rightarrow> Inl FailedToDecodeResponse
      | Embedding e \<Rightarrow>
          (if int (len e) \<noteq> dimension s then Inl (DimensionMismatch (len e) (dimension s))
           else Inr e))"

text \<open>
  \<open>EmbedText\<close>, with the Redis store passed through. A cache hit
  (\<open>err == nil && cached != nil\<close>) is returned at once; a failed write to the cache is
  logged and the embedding is returned all the same.
\<close>

definition EmbedText ::
  "'v EmbeddingService \<Rightarrow> 'v redis \<Rightarrow> string \<Rightarrow> (embed_error + 'v slice) \<times> 'v redis" where
  "EmbedText s r text =
     (case (if useCache s then GetCachedEmbedding r text else Inr None) of
        Inr (Some cached) \<Rightarrow> (Inr (Some cached), r)
      | _ \<Rightarrow>
         (case generateEmbedding s text of
            Inl err \<Rightarrow> (Inl err, r)
          | Inr embedding \<Rightarrow>
             (if useCache s then (Inr embedding, snd (CacheEmbedding r text embedding))
              else (Inr embedding, r))))"

text \<open>\<open>EmbedTexts\<close>: the texts in order, stopping at the first failure, which is wrapped
  with its index. \<open>EmbedTextsFrom\<close> is the loop from index \<open>i\<close>.\<close>

fun EmbedTextsFrom ::
  "'v EmbeddingService \<Rightarrow> 'v redis \<Rightarrow> nat \<Rightarrow> string list
     \<Rightarrow> (embed_error + 'v slice list) \<times> 'v redis" where
  "EmbedTextsFrom s r i [] = (Inr [], r)"
| "EmbedTextsFrom s r i (text # texts) =
     (case EmbedText s r text of
        (Inl err, r') \<Rightarrow> (Inl (FailedToEmbedText i err), r')
      | (Inr embedding, r') \<Rightarrow>
          (case EmbedTextsFrom s r' (i + 1) texts of
             (Inl err, r'') \<Rightarrow> (Inl err, r'')
           | (Inr embeddings, r'') \<Rightarrow> (Inr (embedding # embeddings), r'')))"

definition EmbedTexts ::
  "'v EmbeddingService \<Rightarrow> 'v redis \<Rightarrow> string list \<Rightarrow> (embed_error + 'v slice list) \<times> 'v redis" where
  "EmbedTexts s r texts = EmbedTextsFrom s r 0 texts"

text \<open>The store holds, under every key, only vectors of \<open>D\<close> components (or \<open>null\<close>, or
  something that is no vector).\<close>

definition cacheDimension :: "int \<Rightarrow> 'v redis \<Rightarrow> bool" where
  "cacheDimension D r = (\<forall>k v. kv r k = Some (JsonVector (Some v)) \<longrightarrow> int (length v) = D)"

section \<open>Conversations (\<open>internal/models\<close>, \<open>internal/db/redis.go\<close>, the chat service and the chat handler)\<close>

text \<open>
  \<open>models.ChatMessage\<close>, \<open>models.Conversation\<close> and \<open>models.ChatHistory\<close>. Times are
  natural numbers; \<open>time.Now()\<close> is passed to the operations as \<open>now\<close>. The key \<open>ID\<close> of
  a \<open>ChatHistory\<close> row is assigned by the database and is not modelled.
\<close>

record ChatMessage =
  Role :: string
  Content :: string
  Timestamp :: nat

record Conversation =
  conv_ID :: string
  conv_UserID :: nat
  Messages :: "ChatMessage list"
  conv_CreatedAt :: nat
  conv_UpdatedAt :: nat

record ChatHistory =
  hist_UserID :: nat
  hist_ConversationID :: string
  Title :: string
  hist_CreatedAt :: nat
  hist_UpdatedAt :: nat

text \<open>
  What the chat code reads and writes: the Redis keys made of \<open>conversation:\<close> and
  the conversation id (a stored value either unmarshals into a \<open>Conversation\<close> or
  does not) and the table \<open>chat_histories\<close>. \<open>redis_ok\<close> tells whether a \<open>Get\<close> of Redis
  is answered, \<open>redis_set_ok\<close> whether a \<open>Set\<close> is, and \<open>db_ok\<close> whether the database
  answers; a call that is not answered returns an error.

  Message contents are taken to be valid UTF-8: \<open>json.Marshal\<close> replaces other bytes
  by U+FFFD, so that only a valid content is read back as it was stored.
\<close>

datatype stored_conversation = JsonConversation Conversation | NotAConversation

record chat_world =
  redis_ok :: bool
  redis_set_ok :: bool
  conversations :: "string \<Rightarrow> stored_conversation option"
  db_ok :: bool
  chat_histories :: "ChatHistory list"

datatype chat_error =
    InvalidRequestData
  | RedisGetFailed | ConversationUnmarshalFailed | RedisSetFailed
  | FailedToGetConversation chat_error
  | ReplyFailed
  | FailedToGenerateReply chat_error
  | FailedToGenerateStreamReply chat_error

text \<open>\<open>db.GetConversation\<close>: \<open>redis.Nil\<close> gives \<open>(nil, nil)\<close>.\<close>

definition GetConversation :: "chat_world \<Rightarrow> string \<Rightarrow> chat_error + Conversation option" where
  "GetConversation w convID =
     (if \<not> redis_ok w then Inl RedisGetFailed
      else case conversations w convID of
             None \<Rightarrow> Inr None
           | Some NotAConversation \<Rightarrow> Inl ConversationUnmarshalFailed
           | Some (JsonConversation conv) \<Rightarrow> Inr (Some conv))"

text \<open>\<open>db.SaveConversation\<close>: the key is made from \<open>conv.ID\<close> (the expiry of 24 hours is
  not modelled).\<close>

definition SaveConversation :: "chat_world \<Rightarrow> Conversation \<Rightarrow> (chat_error + unit) \<times> chat_world" where
  "SaveConversation w conv =
     (if \<not> redis_set_ok w then (Inl RedisSetFailed, w)
      else (Inr (), w\<lparr>conversations := (conversations w)(conv_ID conv \<mapsto> JsonConversation conv)\<rparr>))"

text \<open>
  The title of a \<open>ChatHistory\<close> row, as computed in both \<open>saveConversationHistory\<close> and
  \<open>saveStreamConversation\<close>:
  \<^verbatim>\<open>title := firstMessage
  if len(title) > 50 { title = title[:50] + "..." }\<close>
\<close>

definition historyTitle :: "string \<Rightarrow> string" where
  "historyTitle firstMessage =
     (if length firstMessage > 50 then take 50 firstMessage @ ''...'' else firstMessage)"

text \<open>\<open>database.Create(history)\<close>; in both callers a failure is logged and nothing else
  happens.\<close>

definition createHistory :: "chat_world \<Rightarrow> ChatHistory \<Rightarrow> chat_world" where
  "createHistory w history =
     (if db_ok w then w\<lparr>chat_histories := chat_histories w @ [history]\<rparr> else w)"

text \<open>\<open>chat.Service.saveConversationHistory\<close>\<close>

definition saveConversationHistory :: "chat_world \<Rightarrow> nat \<Rightarrow> nat \<Rightarrow> string \<Rightarrow> string \<Rightarrow> chat_world" where
  "saveConversationHistory w now userID convID firstMessage =
     createHistory w
       \<lparr>hist_UserID = userID, hist_ConversationID = convID, Title = historyTitle firstMessage,
        hist_CreatedAt = now, hist_UpdatedAt = now\<rparr>"

text \<open>\<open>chat.Service.getOrCreateConversation\<close>\<close>

definition getOrCreateConversation ::
  "chat_world \<Rightarrow> nat \<Rightarrow> string \<Rightarrow> nat \<Rightarrow> chat_error + Conversation" where
  "getOrCreateConversation w now convID userID =
     (case GetConversation w convID of
        Inl err \<Rightarrow> Inl err
      | Inr None \<Rightarrow>
          Inr \<lparr>conv_ID = convID, conv_UserID = userID, Messages = [],
               conv_CreatedAt = now, conv_UpdatedAt = now\<rparr>
      | Inr (Some conv) \<Rightarrow> Inr conv)"

text \<open>
  What lies outside the conversation bookkeeping is a parameter of the chat operations:
  \<open>newUUID\<close> is the result of \<open>uuid.New().String()\<close>; \<open>ragContext\<close> is the context built
  from \<open>SearchDocuments\<close> and \<open>buildRAGContext\<close> for a message and a knowledge base (empty
  when the search fails or finds nothing); \<open>generateReply\<close> and \<open>generateStreamReply\<close>
  are the calls of the language model (or of the canned fallback), given the message,
  the context and the messages of the conversation.

  A stream reader is the finite script of what its successive \<open>Recv()\<close> calls return:
  a message with its content, or an error other than \<open>io.EOF\<close>; at the end of the
  script \<open>Recv()\<close> returns \<open>io.EOF\<close>.

  \<open>redisLostDuringStream\<close> tells whether Redis has stopped answering between the read of
  the service and the save that the streaming handler starts after the stream.
\<close>

datatype recv = Message string | RecvError

record chat_env =
  newUUID :: string
  ragContext :: "string \<Rightarrow> nat \<Rightarrow> string"
  generateReply :: "string \<Rightarrow> string \<Rightarrow> ChatMessage list \<Rightarrow> chat_error + string"
  generateStreamReply :: "string \<Rightarrow> string \<Rightarrow> ChatMessage list \<Rightarrow> chat_error + recv list"
  redisLostDuringStream :: bool

text \<open>\<open>chat.Service.Chat\<close>, returning \<open>(reply, conversationID, ragContext)\<close> and the new
  state of the stores.\<close>

definition Chat ::
  "chat_env \<Rightarrow> chat_world \<Rightarrow> nat \<Rightarrow> string \<Rightarrow> string \<Rightarrow> nat \<Rightarrow> nat \<Rightarrow> bool
     \<Rightarrow> (chat_error + string \<times> string \<times> string) \<times> chat_world" where
  "Chat env w now message conversationID0 userID kbID useRAG =
     (let conversationID = (if conversationID0 = [] then newUUID env else conversationID0) in
      case getOrCreateConversation w now conversationID userID of
        Inl err \<Rightarrow> (Inl (FailedToGetConversation err), w)
      | Inr conv0 \<Rightarrow>
         (let userMsg = \<lparr>Role = ''user'', Content = message, Timestamp = now\<rparr>;
              conv1 = conv0\<lparr>Messages := Messages conv0 @ [userMsg]\<rparr>;
              context = (if useRAG \<and> kbID > 0 then ragContext env message kbID else [])
          in case generateReply env message context (Messages conv1) of
               Inl err \<Rightarrow> (Inl (FailedToGenerateReply err), w)
             | Inr reply \<Rightarrow>
                (let assistantMsg = \<lparr>Role = ''assistant'', Content = reply, Timestamp = now\<rparr>;
                     conv2 = conv1\<lparr>Messages := Messages conv1 @ [assistantMsg],
                                  conv_UpdatedAt := now\<rparr>;
                     w1 = snd (SaveConversation w conv2);
                     w2 = (if length (Messages conv2) = 2
                           then saveConversationHistory w1 now userID conversationID message
                           else w1)
                 in (Inr (reply, conversationID, context), w2))))"

text \<open>\<open>chat.Service.ChatStream\<close>: it returns the reader, the conversation id and the
  context (the retrieved documents are left out), and writes nothing: the user
  message is appended to a copy of the conversation that is only passed to the model.\<close>

definition ChatStream ::
  "chat_env \<Rightarrow> chat_world \<Rightarrow> nat \<Rightarrow> string \<Rightarrow> string \<Rightarrow> nat \<Rightarrow> nat \<Rightarrow> bool
     \<Rightarrow> chat_error + recv list \<times> string \<times> string" where
  "ChatStream env w now message conversationID0 userID kbID useRAG =
     (let conversationID = (if conversationID0 = [] then newUUID env else conversationID0) in
      case getOrCreateConversation w now conversationID userID of
        Inl err \<Rightarrow> Inl (FailedToGetConversation err)
      | Inr conv0 \<Rightarrow>
         (let userMsg = \<lparr>Role = ''user'', Content = message, Timestamp = now\<rparr>;
              conv1 = conv0\<lparr>Messages := Messages conv0 @ [userMsg]\<rparr>;
              context = (if useRAG \<and> kbID > 0 then ragContext env message kbID else [])
          in case generateStreamReply env message context (Messages conv1) of
               Inl err \<Rightarrow> Inl (FailedToGenerateStreamReply err)
             | Inr reader \<Rightarrow> Inr (reader, conversationID, context)))"

text \<open>
  \<open>ChatHandler.saveStreamConversation\<close>. The user message and the \<open>ChatHistory\<close> row are
  added inside \<open>if conv == nil { ... }\<close>; the assistant message is added after it.
\<close>

definition saveStreamConversation ::
  "chat_world \<Rightarrow> nat \<Rightarrow> nat \<Rightarrow> string \<Rightarrow> string \<Rightarrow> string \<Rightarrow> chat_world" where
  "saveStreamConversation w now userID userMessage assistantReply conversationID =
     (case GetConversation w conversationID of
        Inl err \<Rightarrow> w
      | Inr found \<Rightarrow>
         (let (conv1, w1) =
                (case found of
                   None \<Rightarrow>
                     (\<lparr>conv_ID = conversationID, conv_UserID = userID,
                       Messages = [\<lparr>Role = ''user'', Content = userMessage, Timestamp = now\<rparr>],
                       conv_CreatedAt = now, conv_UpdatedAt = now\<rparr>,
                      createHistory w
                        \<lparr>hist_UserID = userID, hist_ConversationID = conversationID,
                         Title = historyTitle userMessage,
                         hist_CreatedAt = now, hist_UpdatedAt = now\<rparr>)
                 | Some conv \<Rightarrow> (conv, w));
              assistantMsg = \<lparr>Role = ''assistant'', Content = assistantReply, Timestamp = now\<rparr>;
              conv2 = conv1\<lparr>Messages := Messages conv1 @ [assistantMsg], conv_UpdatedAt := now\<rparr>
          in snd (SaveConversation w1 conv2)))"

text \<open>
  The receive loop of \<open>ChatHandler.ChatStream\<close>:
  \<^verbatim>\<open>for {
      chunk, err := reader.Recv()
      if err != nil { if err == io.EOF { break }; h.logger.Error(...); break }
      if chunk.Content != "" { fullReply.WriteString(chunk.Content); <send a content event> } }\<close>
  It returns \<open>fullReply\<close> and how the loop was left.
\<close>

datatype stream_end = CleanEOF | ReadError

fun collectReply :: "recv list \<Rightarrow> string \<Rightarrow> string \<times> stream_end" where
  "collectReply [] fullReply = (fullReply, CleanEOF)"
| "collectReply (RecvError # rest) fullReply = (fullReply, ReadError)"
| "collectReply (Message content # rest) fullReply =
     collectReply rest (if content \<noteq> [] then fullReply @ content else fullReply)"

text \<open>
  \<open>ChatHandler.ChatStream\<close>, from the binding of the request on. \<open>ShouldBindJSON\<close> rejects
  a request without a message (\<open>binding:"required"\<close>): an error event is sent and
  nothing is written. When the service fails, an error event is sent and the handler
  returns. Otherwise, after the loop, whichever way it was left, the handler starts
  \<open>saveStreamConversation\<close> with \<open>fullReply.String()\<close> and sends the event \<open>end\<close>. The
  save runs after the stream, on the stores as they are then. The result is how the
  stream ended (or the error) and the state of the stores once the save has run.
\<close>

definition ChatStreamHandler ::
  "chat_env \<Rightarrow> chat_world \<Rightarrow> nat \<Rightarrow> nat \<Rightarrow> string \<Rightarrow> string \<Rightarrow> nat \<Rightarrow> bool
     \<Rightarrow> (chat_error + stream_end) \<times> chat_world" where
  "ChatStreamHandler env w now userID message conversationID0 kbID useRAG =
     (if message = [] then (Inl InvalidRequestData, w)
      else case ChatStream env w now message conversationID0 userID kbID useRAG of
        Inl err \<Rightarrow> (Inl err, w)
      | Inr (reader, convID, context) \<Rightarrow>
         (let (fullReply, ending) = collectReply reader [];
              wSave = (if redisLostDuringStream env
                       then w\<lparr>redis_ok := False, redis_set_ok := False\<rparr> else w)
          in (Inr ending, saveStreamConversation wSave now userID message fullReply convID)))"

text \<open>The contents received before the stream ends or fails.\<close>

definition receivedBeforeEnd :: "recv list \<Rightarrow> string" where
  "receivedBeforeEnd reader =
     concat (map (\<lambda>e. case e of Message c \<Rightarrow> c | RecvError \<Rightarrow> [])
                 (takeWhile (\<lambda>e. e \<noteq> RecvError) reader))"

text \<open>Every conversation in the store is stored under its own id, as \<open>SaveConversation\<close>
  does it.\<close>

definition wellKeyed :: "chat_world \<Rightarrow> bool" where
  "wellKeyed w = (\<forall>k conv. conversations w k = Some (JsonConversation conv) \<longrightarrow> conv_ID conv = k)"

text \<open>A text in which every byte is a character of its own.\<close>

definition isASCII :: "string \<Rightarrow> bool" where
  "isASCII s = list_all (\<lambda>c. of_char c < (128::nat)) s"

text \<open>Concrete values for evaluation: an environment whose model answers \<open>ok\<close> and whose
  stream is the given script, and the empty stores.\<close>

definition scriptedEnv :: "recv list \<Rightarrow> chat_env" where
  "scriptedEnv script =
     \<lparr>newUUID = ''00000000-0000-4000-8000-000000000000'',
      ragContext = (\<lambda>message kbID. []),
      generateReply = (\<lambda>message context history. Inr ''ok''),
      generateStreamReply = (\<lambda>message context history. Inr script),
      redisLostDuringStream = False\<rparr>"

definition emptyWorld :: chat_world where
  "emptyWorld =
     \<lparr>redis_ok = True, redis_set_ok = True, conversations = Map.empty,
      db_ok = True, chat_histories = []\<rparr>"

section \<open>Documents and knowledge bases (\<open>internal/models\<close>, \<open>internal/services/document/service.go\<close>)\<close>

text \<open>
  The rows of the tables \<open>knowledge_bases\<close> and \<open>documents\<close> (the pointers to the parent
  rows are joins and are left out). Identifiers are natural numbers, times too, and
  \<open>time.Now()\<close> is passed to the operations as \<open>now\<close>.
\<close>

record KnowledgeBase =
  kb_ID :: nat
  Name :: string
  DocCount :: int
  Description :: string
  kb_CreatorID :: nat
  kb_CreatedAt :: nat
  kb_UpdatedAt :: nat

record Document =
  doc_ID :: nat
  KnowledgeBaseID :: nat
  FileName :: string
  FileSize :: int
  Hash :: string
  doc_CreatorID :: nat
  doc_CreatedAt :: nat
  doc_UpdatedAt :: nat

text \<open>
  The relational store: the two tables, and the largest key ever given to a document
  (SQLite's \<open>sqlite_sequence\<close>). A transaction that returns an error is rolled back:
  the operation then returns the store it started from.
\<close>

record database =
  knowledge_bases :: "KnowledgeBase list"
  documents :: "Document list"
  documents_seq :: nat

text \<open>The key given to a new document is one more than the largest key that ever
  existed in the table.\<close>

definition nextDocumentID :: "database \<Rightarrow> nat" where
  "nextDocumentID db = Suc (max (documents_seq db) (Max (insert 0 (doc_ID ` set (documents db)))))"

text \<open>
  The vector adapter as the document service sees it: whether it is connected, whether
  its client handle is set, and whether the calls it makes to the embedding service
  and to Milvus fail.
\<close>

record retriever =
  isConnected :: bool
  clientPresent :: bool
  embeddingFails :: bool
  insertFails :: bool
  deleteFails :: bool

datatype vector_error =
    MilvusNotConnected | MilvusClientNotInitialized
  | FailedToGenerateEmbedding | FailedToInsertDocuments | FailedToDeleteDocumentVectors

text \<open>\<open>MilvusRetriever.AddDocuments\<close>, for \<open>n\<close> chunks: nothing to do for no chunk; then the
  check of the connection, the embeddings, the client handle and the insert.\<close>

definition AddDocuments :: "retriever \<Rightarrow> nat \<Rightarrow> vector_error + unit" where
  "AddDocuments r n =
     (if n = 0 then Inr ()
      else if \<not> isConnected r then Inl MilvusNotConnected
      else if embeddingFails r then Inl FailedToGenerateEmbedding
      else if \<not> clientPresent r then Inl MilvusClientNotInitialized
      else if insertFails r then Inl FailedToInsertDocuments
      else Inr ())"

text \<open>\<open>MilvusRetriever.DeleteByDocument\<close>\<close>

definition DeleteByDocument :: "retriever \<Rightarrow> vector_error + unit" where
  "DeleteByDocument r =
     (if \<not> isConnected r then Inl MilvusNotConnected
      else if \<not> clientPresent r then Inl MilvusClientNotInitialized
      else if deleteFails r then Inl FailedToDeleteDocumentVectors
      else Inr ())"

text \<open>
  \<open>filepath.Ext\<close> (with \<open>/\<close> as the path separator): the suffix of the path from the last
  dot of its last element, empty when there is none. \<open>extFrom\<close> scans the reversed
  path and collects the bytes passed.
\<close>

fun extFrom :: "string \<Rightarrow> string \<Rightarrow> string" where
  "extFrom [] acc = []"
| "extFrom (c # rest) acc =
     (if c = CHR ''/'' then []
      else if c = CHR ''.'' then c # acc
      else extFrom rest (c # acc))"

definition filepathExt :: "string \<Rightarrow> string" where
  "filepathExt path = extFrom (rev path) []"

text \<open>An instance of \<open>strings.ToLower\<close> for evaluation: what it does on ASCII text.\<close>

definition toLowerASCII :: "string \<Rightarrow> string" where
  "toLowerASCII s =
     map (\<lambda>c. if (65::nat) \<le> of_char c \<and> of_char c \<le> (90::nat)
              then char_of (of_char c + (32::nat)) else c) s"

text \<open>
  \<open>DocumentParser.ValidateFileType\<close>; the result is the error's extension.
  \<open>toLower\<close> stands for \<open>strings.ToLower\<close>.
\<close>

definition ValidateFileType :: "(string \<Rightarrow> string) \<Rightarrow> string \<Rightarrow> string list \<Rightarrow> string + unit" where
  "ValidateFileType toLower filename allowedTypes =
     (let ext = toLower (filepathExt filename)
      in if ext \<in> set allowedTypes then Inr () else Inl ext)"

text \<open>
  What a call of the document service meets outside the relational store: the
  retriever of the service (\<open>None\<close> is \<open>nil\<close>), the configuration, the library functions
  \<open>strings.ToLower\<close> and SHA-256 (as \<open>fmt.Sprintf("%x", sha256.Sum256(data))\<close>), and the
  outcome of every step that can fail for a reason outside the model: a statement of
  the database, the reading of the body, the parser, the text processing (which
  returns chunks, fails, or exceeds \<open>IndexTimeout\<close>) and the commit.
\<close>

datatype process_outcome = Processed nat | ProcessFailed | ProcessTimedOut

record service_env =
  theRetriever :: "retriever option"
  AllowedFileTypes :: "string list"
  MaxUploadSize :: int
  toLower :: "string \<Rightarrow> string"
  sha256hex :: "string \<Rightarrow> string"
  kbLookupFails :: bool
  readFails :: bool
  probeFails :: bool
  parseFails :: bool
  createFails :: bool
  processOutcome :: process_outcome
  updateFails :: bool
  docLookupFails :: bool
  deleteRowFails :: bool
  commitFails :: bool

datatype doc_error =
    VectorDatabaseNotAvailable
  | KnowledgeBaseNotFound nat
  | FailedToCheckKnowledgeBase
  | FileTypeNotAllowed string
  | FailedToReadFile
  | DocumentAlreadyExists
  | FailedToParseDocument
  | FailedToSaveDocument
  | FailedToProcessDocument
  | DocumentProcessingTimeout
  | FailedToIndexDocument vector_error
  | FailedToUpdateDocCount
  | CommitFailed
  | DocumentNotFound
  | FailedToDeleteFromVectorDatabase vector_error
  | FailedToDeleteDocumentRecord

text \<open>\<open>io.ReadAll(io.LimitReader(content, s.config.MaxUploadSize))\<close>: at most
  \<open>MaxUploadSize\<close> bytes of the body, none when the limit is not positive.\<close>

definition readLimited :: "int \<Rightarrow> string \<Rightarrow> string" where
  "readLimited limit content = take (nat limit) content"

text \<open>
  The transaction of \<open>UploadDocument\<close>: insert the row (the database gives the key),
  process the text within the timeout, index the chunks, then
  \<^verbatim>\<open>UPDATE knowledge_bases SET doc_count = doc_count + 1, updated_at = ? WHERE id = ?\<close>
  with the check of \<open>RowsAffected\<close>. The result is the document, the number of chunks
  and the store to commit.
\<close>

definition uploadTransaction ::
  "service_env \<Rightarrow> retriever \<Rightarrow> database \<Rightarrow> nat \<Rightarrow> Document \<Rightarrow> nat
     \<Rightarrow> doc_error + (Document \<times> nat \<times> database)" where
  "uploadTransaction env r db now doc0 kbID =
     (if createFails env then Inl FailedToSaveDocument
      else
        (let doc = doc0\<lparr>doc_ID := nextDocumentID db\<rparr>;
             db1 = db\<lparr>documents := documents db @ [doc], documents_seq := doc_ID doc\<rparr>
         in case processOutcome env of
              ProcessFailed \<Rightarrow> Inl FailedToProcessDocument
            | ProcessTimedOut \<Rightarrow> Inl DocumentProcessingTimeout
            | Processed chunkCount \<Rightarrow>
               (case AddDocuments r chunkCount of
                  Inl err \<Rightarrow> Inl (FailedToIndexDocument err)
                | Inr u \<Rightarrow>
                   (if updateFails env then Inl FailedToUpdateDocCount
                    else if \<not> (\<exists>kb \<in> set (knowledge_bases db1). kb_ID kb = kbID)
                    then Inl (KnowledgeBaseNotFound kbID)
                    else Inr (doc, chunkCount,
                              db1\<lparr>knowledge_bases :=
                                    map (\<lambda>kb. if kb_ID kb = kbID
                                               then kb\<lparr>DocCount := DocCount kb + 1,
                                                       kb_UpdatedAt := now\<rparr>
                                               else kb)
                                        (knowledge_bases db1)\<rparr>)))))"

text \<open>\<open>Service.UploadDocument\<close>, returning \<open>(doc, chunkCount)\<close> or the error, and the store
  afterwards.\<close>

definition UploadDocument ::
  "service_env \<Rightarrow> database \<Rightarrow> nat \<Rightarrow> string \<Rightarrow> string \<Rightarrow> nat \<Rightarrow> nat
     \<Rightarrow> (doc_error + Document \<times> nat) \<times> database" where
  "UploadDocument env db now filename content kbID userID =
     (case theRetriever env of
        None \<Rightarrow> (Inl VectorDatabaseNotAvailable, db)
      | Some r \<Rightarrow>
         (if kbLookupFails env then (Inl FailedToCheckKnowledgeBase, db)
          else if \<not> (\<exists>kb \<in> set (knowledge_bases db). kb_ID kb = kbID)
          then (Inl (KnowledgeBaseNotFound kbID), db)
          else case ValidateFileType (toLower env) filename (AllowedFileTypes env) of
                 Inl ext \<Rightarrow> (Inl (FileTypeNotAllowed ext), db)
               | Inr u \<Rightarrow>
                  (if readFails env then (Inl FailedToReadFile, db)
                   else
                     (let data = readLimited (MaxUploadSize env) content;
                          hash = sha256hex env data
                      in if \<not> probeFails env \<and>
                            (\<exists>d \<in> set (documents db). Hash d = hash \<and> KnowledgeBaseID d = kbID)
                         then (Inl DocumentAlreadyExists, db)
                         else if parseFails env then (Inl FailedToParseDocument, db)
                         else
                           (let doc0 = \<lparr>doc_ID = 0, KnowledgeBaseID = kbID, FileName = filename,
                                        FileSize = int (length data), Hash = hash,
                                        doc_CreatorID = userID,
                                        doc_CreatedAt = now, doc_UpdatedAt = now\<rparr>
                            in case uploadTransaction env r db now doc0 kbID of
                                 Inl err \<Rightarrow> (Inl err, db)
                               | Inr (doc, chunkCount, db') \<Rightarrow>
                                   (if commitFails env then (Inl CommitFailed, db)
                                    else (Inr (doc, chunkCount), db')))))))"

text \<open>
  The transaction of \<open>DeleteDocument\<close>:
  \<^verbatim>\<open>if s.retriever != nil {
      if err := s.retriever.DeleteByDocument(ctx, docID); err != nil {
          return fmt.Errorf("failed to delete from vector database: %w", err) }
  } else { s.logger.Warn("Vector deletion skipped - retriever not available", ...) }\<close>
  then the row is deleted by its key and \<open>doc_count\<close> is decremented in the rows of
  \<open>knowledge_bases\<close> with the document's \<open>KnowledgeBaseID\<close> (\<open>Update\<close> also sets
  \<open>updated_at\<close>; that no row matches is no error).
\<close>

definition deleteTransaction ::
  "service_env \<Rightarrow> database \<Rightarrow> nat \<Rightarrow> Document \<Rightarrow> doc_error + database" where
  "deleteTransaction env db now doc =
     (case (case theRetriever env of
              Some r \<Rightarrow> DeleteByDocument r
            | None \<Rightarrow> Inr ()) of
        Inl err \<Rightarrow> Inl (FailedToDeleteFromVectorDatabase err)
      | Inr u \<Rightarrow>
         (if deleteRowFails env then Inl FailedToDeleteDocumentRecord
          else if updateFails env then Inl FailedToUpdateDocCount
          else Inr (db\<lparr>documents := filter (\<lambda>d. doc_ID d \<noteq> doc_ID doc) (documents db),
                       knowledge_bases :=
                         map (\<lambda>kb. if kb_ID kb = KnowledgeBaseID doc
                                    then kb\<lparr>DocCount := DocCount kb - 1, kb_UpdatedAt := now\<rparr>
                                    else kb)
                             (knowledge_bases db)\<rparr>)))"

text \<open>\<open>Service.DeleteDocument\<close>: \<open>database.First(&doc, docID)\<close> finds the row with the key
  (any error is reported as document not found), then the transaction.\<close>

definition DeleteDocument ::
  "service_env \<Rightarrow> database \<Rightarrow> nat \<Rightarrow> nat \<Rightarrow> (doc_error + unit) \<times> database" where
  "DeleteDocument env db now docID =
     (if docLookupFails env then (Inl DocumentNotFound, db)
      else case find (\<lambda>d. doc_ID d = docID) (documents db) of
             None \<Rightarrow> (Inl DocumentNotFound, db)
           | Some doc \<Rightarrow>
              (case deleteTransaction env db now doc of
                 Inl err \<Rightarrow> (Inl err, db)
               | Inr db' \<Rightarrow>
                   (if commitFails env then (Inl CommitFailed, db) else (Inr (), db'))))"

text \<open>The number of documents of a knowledge base, the invariant of \<open>doc_count\<close>, and the
  primary key of \<open>documents\<close>.\<close>

definition documentsOf :: "database \<Rightarrow> nat \<Rightarrow> nat" where
  "documentsOf db kbID = length (filter (\<lambda>d. KnowledgeBaseID d = kbID) (documents db))"

definition docCountAccurate :: "database \<Rightarrow> bool" where
  "docCountAccurate db =
     (\<forall>kb \<in> set (knowledge_bases db). DocCount kb = int (documentsOf db (kb_ID kb)))"

definition primaryKeyUnique :: "database \<Rightarrow> bool" where
  "primaryKeyUnique db = distinct (map doc_ID (documents db))"

text \<open>A sequence of calls of the document service, each with what it meets outside the
  store, run from a store.\<close>

datatype operation =
    Upload service_env nat string string nat nat
  | Delete service_env nat nat

fun applyOperation :: "database \<Rightarrow> operation \<Rightarrow> bool \<times> database" where
  "applyOperation db (Upload env now filename content kbID userID) =
     (case UploadDocument env db now filename content kbID userID of
        (Inl err, db') \<Rightarrow> (False, db')
      | (Inr res, db') \<Rightarrow> (True, db'))"
| "applyOperation db (Delete env now docID) =
     (case DeleteDocument env db now docID of
        (Inl err, db') \<Rightarrow> (False, db')
      | (Inr u, db') \<Rightarrow> (True, db'))"

fun runOperations :: "database \<Rightarrow> operation list \<Rightarrow> database" where
  "runOperations db [] = db"
| "runOperations db (op # ops) = runOperations (snd (applyOperation db op)) ops"

text \<open>Concrete values for evaluation: a stand-in for the digest (the bytes themselves:
  equal data have equal digests and, as is expected of SHA-256, different data have
  different ones), an environment in which every step succeeds, and a store with one
  knowledge base.\<close>

definition standInDigest :: "string \<Rightarrow> string" where
  "standInDigest data = data"

definition connectedRetriever :: retriever where
  "connectedRetriever =
     \<lparr>isConnected = True, clientPresent = True, embeddingFails = False,
      insertFails = False, deleteFails = False\<rparr>"

definition workingEnv :: service_env where
  "workingEnv =
     \<lparr>theRetriever = Some connectedRetriever,
      AllowedFileTypes = [''.txt'', ''.md'', ''.pdf''],
      MaxUploadSize = 10485760,
      toLower = toLowerASCII,
      sha256hex = standInDigest,
      kbLookupFails = False, readFails = False, probeFails = False, parseFails = False,
      createFails = False, processOutcome = Processed 1, updateFails = False,
      docLookupFails = False, deleteRowFails = False, commitFails = False\<rparr>"

definition kb1 :: KnowledgeBase where
  "kb1 = \<lparr>kb_ID = 1, Name = ''kb1'', DocCount = 0, Description = [],
          kb_CreatorID = 1, kb_CreatedAt = 0, kb_UpdatedAt = 0\<rparr>"

definition freshStore :: database where
  "freshStore = \<lparr>knowledge_bases = [kb1], documents = [], documents_seq = 0\<rparr>"

definition storeWithDocument :: database where
  "storeWithDocument =
     \<lparr>knowledge_bases = [kb1\<lparr>DocCount := 1\<rparr>],
      documents = [\<lparr>doc_ID = 1, KnowledgeBaseID = 1, FileName = ''a.txt'', FileSize = 3,
                    Hash = standInDigest ''abc'', doc_CreatorID = 1,
                    doc_CreatedAt = 0, doc_UpdatedAt = 0\<rparr>],
      documents_seq = 1\<rparr>"

text \<open>What the two updates of \<open>doc_count\<close> do to a row of \<open>knowledge_bases\<close>.\<close>

definition addToDocCount :: "nat \<Rightarrow> int \<Rightarrow> nat \<Rightarrow> KnowledgeBase \<Rightarrow> KnowledgeBase" where
  "addToDocCount kbID delta now kb =
     (if kb_ID kb = kbID then kb\<lparr>DocCount := DocCount kb + delta, kb_UpdatedAt := now\<rparr> else kb)"

definition disconnectedEnv :: service_env where
  "disconnectedEnv = workingEnv\<lparr>theRetriever := Some (connectedRetriever\<lparr>isConnected := False\<rparr>)\<rparr>"

definition sampleOperations :: "operation list" where
  "sampleOperations =
     [Upload workingEnv 1 ''a.txt'' ''abc'' 1 1,
      Upload workingEnv 2 ''copy.txt'' ''abc'' 1 1,
      Upload workingEnv 3 ''c.md'' ''xyz'' 1 1,
      Delete workingEnv 4 1]"


section \<open>Properties of the length chunker\<close>

subsection \<open>Forward progress and the iteration bound\<close>

lemma findBoundary_range:
  "0 \<le> start \<Longrightarrow> i \<le> end \<Longrightarrow> end < int (length content) \<Longrightarrow> start < end \<Longrightarrow>
   \<exists>e. findBoundary content start end i = Inr e \<and> start < e \<and> e \<le> end"
proof (induction content start "end" i rule: findBoundary.induct)
  case (1 content start "end" i)
  note unf = findBoundary.simps[of content start "end" i]
  show ?case
  proof (cases "i > start \<and> i > end - 50")
    case False
    then show ?thesis using "1.prems" by (auto simp: unf)
  next
    case True
    note T = True
    have inr: "\<not> (i < 0 \<or> int (length content) \<le> i)" using True "1.prems" by auto
    show ?thesis
    proof (cases "isBoundary (content ! nat i)")
      case True
      then show ?thesis using T inr "1.prems" by (auto simp: unf)
    next
      case False
      have "\<exists>e. findBoundary content start end (i - 1) = Inr e \<and> start < e \<and> e \<le> end"
        using "1.IH"[OF T inr False] "1.prems" by simp
      then show ?thesis using T inr False by (auto simp: unf)
    qed
  qed
qed

lemma windowEnd_range:
  assumes "0 \<le> start" "start < int (length content)" "1 \<le> S"
  shows "\<exists>e. windowEnd content start S = Inr e \<and> start < e \<and> e \<le> int (length content)"
proof -
  define end1 where
    "end1 = (if start + S > int (length content) then int (length content) else start + S)"
  have e1: "start < end1" "end1 \<le> int (length content)"
    using assms by (auto simp: end1_def)
  have we: "windowEnd content start S =
        (if end1 < int (length content) then findBoundary content start end1 end1 else Inr end1)"
    by (simp add: windowEnd_def Let_def end1_def)
  show ?thesis
  proof (cases "end1 < int (length content)")
    case True
    then show ?thesis
      using findBoundary_range[of start end1 end1 content] e1 assms we by auto
  next
    case False
    then show ?thesis using e1 we by simp
  qed
qed


lemma nextStart_gt: "start < nextStart start e ov"
  by (simp add: nextStart_def Let_def)

text \<open>
  The loop invariant: from a state with \<open>0 \<le> start\<close> the loop returns, the counter grows
  by at most the distance from \<open>start\<close> to the end of the text, every iteration appends
  at most one chunk, and the first iteration appends one unless the cap is reached.
\<close>

lemma splitLoop_progress:
  "0 \<le> start \<Longrightarrow> 1 \<le> S \<Longrightarrow>
   \<exists>cs n. splitLoop tr S ov content start it chunks = Inr (cs, n)
      \<and> n \<le> it + nat (int (length content) - start)
      \<and> length cs \<le> length chunks + (n - it)
      \<and> length chunks \<le> length cs \<and> it \<le> n
      \<and> (start < int (length content) \<and> it < 1000 \<longrightarrow> length chunks < length cs)"
proof (induction tr S ov content start it chunks rule: splitLoop.induct)
  case (1 tr S ov content start it chunks)
  let ?len = "int (length content)"
  note unf = splitLoop.simps[of tr S ov content start it chunks]
  show ?case
  proof (cases "start < ?len")
    case False
    then show ?thesis by (simp add: unf)
  next
    case True
    note lt = True
    show ?thesis
    proof (cases "it + 1 > 1000")
      case True
      then show ?thesis using lt by (simp add: unf)
    next
      case False
      note nc = False
      obtain e where e: "windowEnd content start S = Inr e" and eb: "start < e" "e \<le> ?len"
        using windowEnd_range[OF "1.prems"(1) lt "1.prems"(2)] by blast
      obtain chunk where sl: "slice content start e = Inr chunk"
        using eb "1.prems" by (simp add: slice_def)
      show ?thesis
      proof (cases "e \<ge> ?len")
        case True
        have "splitLoop tr S ov content start it chunks = Inr (chunks @ [tr chunk], it + 1)"
          using lt nc e sl True by (simp add: unf)
        then show ?thesis using lt by simp
      next
        case False
        let ?next = "nextStart start e ov"
        let ?chunks = "chunks @ [tr chunk]"
        have eq: "splitLoop tr S ov content start it chunks =
                  splitLoop tr S ov content ?next (it + 1) ?chunks"
          using lt nc e sl False by (simp add: unf)
        have ns: "start < ?next" by (rule nextStart_gt)
        have "\<exists>cs n. splitLoop tr S ov content ?next (it + 1) ?chunks = Inr (cs, n)
            \<and> n \<le> (it + 1) + nat (?len - ?next)
            \<and> length cs \<le> length ?chunks + (n - (it + 1))
            \<and> length ?chunks \<le> length cs \<and> it + 1 \<le> n
            \<and> (?next < ?len \<and> it + 1 < 1000 \<longrightarrow> length ?chunks < length cs)"
          using "1.IH"[OF lt nc e sl False] ns "1.prems" by simp
        then obtain cs n where r: "splitLoop tr S ov content ?next (it + 1) ?chunks = Inr (cs, n)"
           and b1: "n \<le> (it + 1) + nat (?len - ?next)"
           and b2: "length cs \<le> length ?chunks + (n - (it + 1))"
           and b3: "length ?chunks \<le> length cs" and b4: "it + 1 \<le> n"
          by blast
        have "n \<le> it + nat (?len - start)" using b1 ns lt by linarith
        moreover have "length cs \<le> length chunks + (n - it)" using b2 b4 by simp
        moreover have "length chunks < length cs" using b3 by simp
        ultimately show ?thesis using eq r b4 by simp
      qed
    qed
  qed
qed




subsection \<open>The iteration cap\<close>

text \<open>Started with as many chunks as iterations, the loop returns either one chunk per
  iteration, or 1000 chunks with the counter at 1001.\<close>

lemma splitLoop_cap:
  "length chunks = it \<Longrightarrow> it \<le> 1000 \<Longrightarrow>
   splitLoop tr S ov content start it chunks = Inr (cs, n) \<Longrightarrow>
   (n \<le> 1000 \<and> length cs = n) \<or> (n = 1001 \<and> length cs = 1000)"
proof (induction tr S ov content start it chunks rule: splitLoop.induct)
  case (1 tr S ov content start it chunks)
  note unf = splitLoop.simps[of tr S ov content start it chunks]
  show ?case
  proof (cases "start < int (length content) \<and> \<not> it + 1 > 1000")
    case False
    then show ?thesis using "1.prems" by (auto simp: unf split: if_splits)
  next
    case True
    then obtain e chunk where e: "windowEnd content start S = Inr e"
        and sl: "slice content start e = Inr chunk"
      using "1.prems"(3) by (auto simp: unf split: sum.splits)
    show ?thesis
    proof (cases "e \<ge> int (length content)")
      case True
      then show ?thesis using \<open>start < int (length content) \<and> \<not> it + 1 > 1000\<close> e sl "1.prems"
        by (auto simp: unf)
    next
      case False
      have "splitLoop tr S ov content (nextStart start e ov) (it + 1) (chunks @ [tr chunk]) = Inr (cs, n)"
        using \<open>start < int (length content) \<and> \<not> it + 1 > 1000\<close> e sl False "1.prems"(3) by (simp add: unf)
      then show ?thesis
        using "1.IH"[of e chunk] \<open>start < int (length content) \<and> \<not> it + 1 > 1000\<close> e sl False "1.prems"(1,2)
        by auto
    qed
  qed
qed

text \<open>
  What the cap does in general. For every chunk size \<open>S \<ge> 1\<close> and overlap \<open>O \<ge> 0\<close> the
  chunker returns a chunk list; whenever the iteration counter has exceeded the cap
  (it is then 1001) the list returned holds exactly the 1000 chunks collected before
  the cap, and no error is reported.
\<close>

lemma splitByLength_cap_general:
  assumes "1 \<le> S" and "0 \<le> ov"
  shows "\<exists>chunks n. splitByLengthCount tr S ov content = Inr (chunks, n)
           \<and> splitByLength tr S ov content = Inr chunks
           \<and> (1000 < n \<longrightarrow> n = 1001 \<and> length chunks = 1000)"
proof (cases "int (length content) \<le> S")
  case True
  then show ?thesis by (simp add: splitByLengthCount_def splitByLength_def)
next
  case False
  obtain cs n where r: "splitLoop tr S ov content 0 0 [] = Inr (cs, n)"
    using splitLoop_progress[of 0 S tr ov content 0 "[]"] assms by auto
  have "(n \<le> 1000 \<and> length cs = n) \<or> (n = 1001 \<and> length cs = 1000)"
    using splitLoop_cap[OF _ _ r] by simp
  then show ?thesis using False r by (auto simp: splitByLengthCount_def splitByLength_def)
qed

text \<open>
  A text of \<open>m\<close> equal bytes that are neither space nor newline, with overlap
  \<open>0 \<le> O < S\<close>: every window is \<open>S\<close> bytes long and the start moves by \<open>S - O\<close>, so a
  text longer than \<open>1000 * (S - O) + S\<close> bytes reaches the cap.
\<close>

lemma findBoundary_none:
  "\<forall>j < length content. \<not> isBoundary (content ! j) \<Longrightarrow> 0 \<le> start \<Longrightarrow> i \<le> end \<Longrightarrow>
   end < int (length content) \<Longrightarrow> findBoundary content start end i = Inr end"
proof (induction content start "end" i rule: findBoundary.induct)
  case (1 content start "end" i)
  note unf = findBoundary.simps[of content start "end" i]
  show ?case
  proof (cases "i > start \<and> i > end - 50")
    case False
    then show ?thesis by (auto simp: unf)
  next
    case True
    have inr: "\<not> (i < 0 \<or> int (length content) \<le> i)" using True "1.prems" by auto
    then have "nat i < length content" by auto
    then have nb: "\<not> isBoundary (content ! nat i)" using "1.prems"(1) by blast
    have "findBoundary content start end (i - 1) = Inr end"
      using "1.IH"[OF True inr nb] "1.prems" by simp
    then show ?thesis using True inr nb by (simp add: unf)
  qed
qed

lemma windowEnd_replicate:
  assumes "\<not> isBoundary a" and "1 \<le> S" and "int k + S < int m"
  shows "windowEnd (replicate m a) (int k) S = Inr (int k + S)"
proof -
  have "findBoundary (replicate m a) (int k) (int k + S) (int k + S) = Inr (int k + S)"
    using assms by (intro findBoundary_none) auto
  then show ?thesis using assms by (simp add: windowEnd_def Let_def)
qed

lemma slice_replicate:
  assumes "1 \<le> S" and "int k + S < int m"
  shows "slice (replicate m a) (int k) (int k + S) = Inr (replicate (nat S) a)"
proof -
  have "nat S \<le> m - k" using assms by linarith
  then have "take (nat S) (replicate (m - k) a) = replicate (nat S) a"
    by (simp add: min_def)
  then show ?thesis using assms by (simp add: slice_def)
qed

lemma splitLoop_replicate_capped:
  assumes nb: "\<not> isBoundary a" and ov: "0 \<le> ov" "ov < S"
  shows "it + j = 1000 \<Longrightarrow> int k + int j * (S - ov) < int m \<Longrightarrow>
     (0 < j \<longrightarrow> int k + (int j - 1) * (S - ov) + S < int m) \<Longrightarrow>
     splitLoop tr S ov (replicate m a) (int k) it chunks
       = Inr (chunks @ replicate j (tr (replicate (nat S) a)), 1001)"
proof (induction j arbitrary: it k chunks)
  case 0
  then have "int k < int (length (replicate m a))" by simp
  then show ?case using 0 by (subst splitLoop.simps) simp
next
  case (Suc j)
  let ?d = "nat (S - ov)"
  have S1: "1 \<le> S" using ov by simp
  have pos: "0 \<le> int j * (S - ov)" using ov by simp
  have expand: "int (Suc j) * (S - ov) = int j * (S - ov) + (S - ov)"
    by (simp add: algebra_simps)
  have last: "int k + int j * (S - ov) + S < int m" using Suc.prems(3) by simp
  have k: "int k + S < int m" using last pos by linarith
  have we: "windowEnd (replicate m a) (int k) S = Inr (int k + S)"
    using windowEnd_replicate[OF nb S1 k] .
  have sl: "slice (replicate m a) (int k) (int k + S) = Inr (replicate (nat S) a)"
    using slice_replicate[OF S1 k] .
  have ns: "nextStart (int k) (int k + S) ov = int (k + ?d)"
    using ov by (simp add: nextStart_def Let_def)
  have nxt1: "int (k + ?d) + int j * (S - ov) < int m"
    using Suc.prems(2) ov expand by simp
  have nxt2: "0 < j \<longrightarrow> int (k + ?d) + (int j - 1) * (S - ov) + S < int m"
    using last ov by (simp add: algebra_simps)
  have "splitLoop tr S ov (replicate m a) (int k) it chunks =
        splitLoop tr S ov (replicate m a) (int (k + ?d)) (Suc it)
          (chunks @ [tr (replicate (nat S) a)])"
    using k Suc.prems(1) we sl ns S1
    by (simp add: splitLoop.simps[of tr S ov "replicate m a" "int k" it chunks])
  also have "\<dots> = Inr ((chunks @ [tr (replicate (nat S) a)]) @ replicate j (tr (replicate (nat S) a)), 1001)"
    using Suc.IH[of "Suc it" "k + ?d" "chunks @ [tr (replicate (nat S) a)]", OF _ nxt1 nxt2]
      Suc.prems(1) by simp
  finally show ?case by (simp add: replicate_append_same)
qed

lemma dropWhile_replicate:
  "\<not> P a \<Longrightarrow> dropWhile P (replicate n a) = replicate n a"
  by (cases n) simp_all

lemma trimSpaceASCII_replicate:
  "\<not> isAsciiSpace a \<Longrightarrow> trimSpaceASCII (replicate n a) = replicate n a"
  by (simp add: trimSpaceASCII_def dropWhile_replicate)

text \<open>
  Claim C4 is not what the code does. With the default configuration (chunk size 500,
  overlap 50) a text of 460000 bytes \<open>a\<close> makes the counter reach 1001; the chunker
  then returns, as a success, the 1000 chunks of the windows starting at
  \<open>0, 450, ..., 449550\<close>, and the bytes from 450050 on are in no chunk. The same
  happens on 1001 bytes with chunk size 1 and overlap 0: 1000 one-byte chunks, the
  last byte lost. No error is returned in either case.
\<close>

theorem splitByLength_cap_returns_truncated_list:
  "splitByLengthCount trimSpaceASCII 500 50 (replicate 460000 (CHR ''a''))
     = Inr (replicate 1000 (replicate 500 (CHR ''a'')), 1001)
   \<and> splitByLength trimSpaceASCII 500 50 (replicate 460000 (CHR ''a''))
     = Inr (replicate 1000 (replicate 500 (CHR ''a'')))
   \<and> splitByLengthCount trimSpaceASCII 1 0 (replicate 1001 (CHR ''a''))
     = Inr (replicate 1000 ''a'', 1001)
   \<and> splitByLength trimSpaceASCII 1 0 (replicate 1001 (CHR ''a'')) = Inr (replicate 1000 ''a'')"
proof -
  have nb: "\<not> isBoundary (CHR ''a'')" by (simp add: isBoundary_def)
  have ns: "\<not> isAsciiSpace (CHR ''a'')" by (simp add: isAsciiSpace_def)
  have big: "splitLoop trimSpaceASCII 500 50 (replicate 460000 (CHR ''a'')) 0 0 []
               = Inr (replicate 1000 (trimSpaceASCII (replicate 500 (CHR ''a''))), 1001)"
    using splitLoop_replicate_capped[OF nb, of 50 500 0 1000 0 460000 trimSpaceASCII "[]"]
    by simp
  have small: "splitLoop trimSpaceASCII 1 0 (replicate 1001 (CHR ''a'')) 0 0 []
               = Inr (replicate 1000 (trimSpaceASCII (replicate 1 (CHR ''a''))), 1001)"
    using splitLoop_replicate_capped[OF nb, of 0 1 0 1000 0 1001 trimSpaceASCII "[]"]
    by simp
  have ta: "trimSpaceASCII ''a'' = ''a''"
    by (simp add: trimSpaceASCII_def isAsciiSpace_def)
  show ?thesis
    using big small
    by (simp add: splitByLengthCount_def splitByLength_def trimSpaceASCII_replicate[OF ns] ta)
qed


section \<open>Properties of the embedding service\<close>

lemma EmbedText_hit:
  "useCache s \<Longrightarrow> GetCachedEmbedding r t = Inr (Some v) \<Longrightarrow> EmbedText s r t = (Inr (Some v), r)"
  by (simp add: EmbedText_def)

lemma GetCachedEmbedding_key:
  "embeddingKey t1 = embeddingKey t2 \<Longrightarrow> GetCachedEmbedding r t1 = GetCachedEmbedding r t2"
  by (simp add: GetCachedEmbedding_def)

lemma GetCachedEmbedding_after_Cache:
  "up r \<Longrightarrow> GetCachedEmbedding (snd (CacheEmbedding r t e)) t = Inr e"
  by (simp add: GetCachedEmbedding_def CacheEmbedding_def)

text \<open>Without a hit, \<open>EmbedText\<close> is the call of the service followed by the write.\<close>

lemma EmbedText_miss:
  assumes "\<not> (\<exists>c. useCache s \<and> GetCachedEmbedding r t = Inr (Some c))"
  shows "EmbedText s r t =
           (case generateEmbedding s t of
              Inl err \<Rightarrow> (Inl err, r)
            | Inr embedding \<Rightarrow>
                (Inr embedding, if useCache s then snd (CacheEmbedding r t embedding) else r))"
  using assms by (auto simp: EmbedText_def split: sum.splits option.splits)

lemma EmbedText_populates:
  assumes "useCache s" "up r" "EmbedText s r t = (Inr (Some v), r')"
  shows "GetCachedEmbedding r' t = Inr (Some v)"
proof (cases "\<exists>c. GetCachedEmbedding r t = Inr (Some c)")
  case True
  then obtain c where c: "GetCachedEmbedding r t = Inr (Some c)" by blast
  then have "EmbedText s r t = (Inr (Some c), r)"
    using assms(1) by (rule EmbedText_hit[rotated])
  then show ?thesis using assms(3) c by simp
next
  case False
  then have "generateEmbedding s t = Inr (Some v)" "r' = snd (CacheEmbedding r t (Some v))"
    using assms(1,3) EmbedText_miss[of s r t] by (auto split: sum.splits)
  then show ?thesis using GetCachedEmbedding_after_Cache[OF assms(2)] by simp
qed

text \<open>
  Claim C10. The cache key is a function of the 64-bit polynomial hash
  \<open>h = h * 31 + byte\<close> of the text alone, and the distinct texts \<open>Aa\<close> and \<open>BB\<close> have the
  same hash, hence the same key. With caching enabled and Redis answering, once
  \<open>EmbedText t1\<close> has returned a vector \<open>v\<close>, \<open>EmbedText t2\<close> for any text \<open>t2\<close> with
  the key of \<open>t1\<close> returns \<open>v\<close> from the cache, and neither calls the service nor
  changes the cache.
\<close>

theorem embedding_cache_collision:
  "hashString [] = 0 \<and> hashString (t @ [c]) = hashString t * 31 + of_char c
   \<and> embeddingKey t = ''embedding:'' @ hexDigits (unat (hashString t))
   \<and> ''Aa'' \<noteq> ''BB'' \<and> hashString ''Aa'' = hashString ''BB''
   \<and> embeddingKey ''Aa'' = embeddingKey ''BB''
   \<and> (useCache s \<and> up r \<and> embeddingKey t1 = embeddingKey t2
        \<and> EmbedText s r t1 = (Inr (Some v), r')
       \<longrightarrow> EmbedText s r' t2 = (Inr (Some v), r'))"
proof -
  have a: "hashString ''Aa'' = hashString ''BB''" by (simp add: hashString_def)
  have b: "embeddingKey ''Aa'' = embeddingKey ''BB''" by (simp add: embeddingKey_def a)
  have c: "EmbedText s r' t2 = (Inr (Some v), r')"
    if h: "useCache s" "up r" "embeddingKey t1 = embeddingKey t2"
          "EmbedText s r t1 = (Inr (Some v), r')"
    using EmbedText_hit[OF h(1), of r' t2 v] EmbedText_populates[OF h(1,2,4)]
      GetCachedEmbedding_key[OF h(3), of r'] by simp
  show ?thesis using a b c by (simp add: hashString_def embeddingKey_def)
qed

text \<open>The witness: the service would embed \<open>BB\<close> as \<open>[2]\<close>, but after \<open>EmbedText Aa\<close> has
  stored \<open>[1]\<close>, \<open>EmbedText BB\<close> returns \<open>[1]\<close>.\<close>

theorem embedding_cache_collision_witness:
  "fst (EmbedText \<lparr>dimension = 1, useCache = True,
                   ollama = (\<lambda>t. if t = ''Aa'' then Embedding (Some [1::int]) else Embedding (Some [2]))\<rparr>
                 \<lparr>up = True, kv = Map.empty\<rparr> ''Aa'') = Inr (Some [1])
   \<and> generateEmbedding \<lparr>dimension = 1, useCache = True,
                   ollama = (\<lambda>t. if t = ''Aa'' then Embedding (Some [1::int]) else Embedding (Some [2]))\<rparr>
        ''BB'' = Inr (Some [2])
   \<and> fst (EmbedText \<lparr>dimension = 1, useCache = True,
                   ollama = (\<lambda>t. if t = ''Aa'' then Embedding (Some [1::int]) else Embedding (Some [2]))\<rparr>
           (snd (EmbedText \<lparr>dimension = 1, useCache = True,
                   ollama = (\<lambda>t. if t = ''Aa'' then Embedding (Some [1::int]) else Embedding (Some [2]))\<rparr>
                 \<lparr>up = True, kv = Map.empty\<rparr> ''Aa''))
           ''BB'') = Inr (Some [1])"
proof -
  let ?s = "\<lparr>dimension = 1, useCache = True,
             ollama = (\<lambda>t. if t = ''Aa'' then Embedding (Some [1::int]) else Embedding (Some [2]))\<rparr>"
  let ?r = "\<lparr>up = True, kv = Map.empty\<rparr> :: int redis"
  have g1: "generateEmbedding ?s ''Aa'' = Inr (Some [1])"
    by (simp add: generateEmbedding_def len_def)
  have g2: "generateEmbedding ?s ''BB'' = Inr (Some [2])"
    by (simp add: generateEmbedding_def len_def)
  have m: "GetCachedEmbedding ?r ''Aa'' = Inr None"
    by (simp add: GetCachedEmbedding_def)
  define r1 where "r1 = snd (EmbedText ?s ?r ''Aa'')"
  have e1: "EmbedText ?s ?r ''Aa'' = (Inr (Some [1]), r1)"
    by (simp add: r1_def EmbedText_def m g1)
  have uc: "useCache ?s" "up ?r" by simp_all
  have e2: "EmbedText ?s r1 ''BB'' = (Inr (Some [1]), r1)"
    using embedding_cache_collision[of "''Aa''" "CHR ''a''" ?s ?r "''Aa''" "''BB''" "[1]" r1] e1 uc
    by blast
  have f: "fst (EmbedText ?s ?r ''Aa'') = Inr (Some [1])" "snd (EmbedText ?s ?r ''Aa'') = r1"
    using e1 by simp_all
  show ?thesis unfolding f using e2 g2 by simp
qed

subsection \<open>The dimension of the vectors returned\<close>

lemma generateEmbedding_dimension:
  "generateEmbedding s t = Inr e \<Longrightarrow> int (len e) = dimension s"
  by (auto simp: generateEmbedding_def split: ollama_reply.splits if_splits)

lemma generateEmbedding_mismatch:
  "ollama s t = Embedding e \<Longrightarrow> int (len e) \<noteq> dimension s \<Longrightarrow>
   generateEmbedding s t = Inl (DimensionMismatch (len e) (dimension s))"
  by (simp add: generateEmbedding_def)

text \<open>What \<open>EmbedText\<close> does guarantee: when every vector in the cache has the configured
  dimension, so has the vector returned, and the cache stays so.\<close>

lemma EmbedText_dimension_if_cache_ok:
  assumes "cacheDimension (dimension s) r" "EmbedText s r t = (Inr e, r')"
  shows "int (len e) = dimension s \<and> cacheDimension (dimension s) r'"
proof (cases "\<exists>c. useCache s \<and> GetCachedEmbedding r t = Inr (Some c)")
  case True
  then obtain c where c: "useCache s" "GetCachedEmbedding r t = Inr (Some c)" by blast
  then have "kv r (embeddingKey t) = Some (JsonVector (Some c))"
    by (auto simp: GetCachedEmbedding_def split: if_splits option.splits cached.splits)
  then have "int (length c) = dimension s" using assms(1) by (simp add: cacheDimension_def)
  then show ?thesis using EmbedText_hit[OF c] assms by (simp add: len_def)
next
  case False
  then have g: "generateEmbedding s t = Inr e"
      and r': "r' = (if useCache s then snd (CacheEmbedding r t e) else r)"
    using assms(2) EmbedText_miss[of s r t] by (auto split: sum.splits)
  have d: "int (len e) = dimension s" using g by (rule generateEmbedding_dimension)
  have "cacheDimension (dimension s) (snd (CacheEmbedding r t e))"
    using assms(1) d by (auto simp: cacheDimension_def CacheEmbedding_def len_def)
  then show ?thesis using d r' assms(1) by simp
qed

text \<open>
  Claim C5 fails on the path through the cache: the hit is returned before any check.
  With configured dimension 3 and a cache that holds a vector of 2 components under the
  key of \<open>hi\<close> (as written by a run configured with dimension 2; the entry lives for 7
  days), \<open>EmbedText hi\<close> returns the 2-component vector and no error.
\<close>

theorem EmbedText_cached_dimension_unchecked:
  "EmbedText \<lparr>dimension = 3, useCache = True, ollama = (\<lambda>t. Embedding (Some [1, 2, 3::int]))\<rparr>
             \<lparr>up = True, kv = [embeddingKey ''hi'' \<mapsto> JsonVector (Some [1, 2])]\<rparr> ''hi''
     = (Inr (Some [1, 2]), \<lparr>up = True, kv = [embeddingKey ''hi'' \<mapsto> JsonVector (Some [1, 2])]\<rparr>)
   \<and> fst (EmbedTexts \<lparr>dimension = 3, useCache = True, ollama = (\<lambda>t. Embedding (Some [1, 2, 3::int]))\<rparr>
             \<lparr>up = True, kv = [embeddingKey ''hi'' \<mapsto> JsonVector (Some [1, 2])]\<rparr> [''hi''])
     = Inr [Some [1, 2]]
   \<and> int (len (Some [1, 2::int])) \<noteq> 3"
  by (simp add: EmbedTexts_def EmbedText_def GetCachedEmbedding_def len_def)

section \<open>Properties of the conversation code\<close>

subsection \<open>The title of a chat history row\<close>

text \<open>
  Claim C9 as stated fails: for a first message of 51 bytes, \<open>Chat\<close> creates a
  \<open>ChatHistory\<close> row whose title has 53 bytes, the first 50 bytes of the message
  followed by three dots.
\<close>

theorem history_title_counterexample:
  "chat_histories (snd (Chat (scriptedEnv []) emptyWorld 0 (replicate 51 (CHR ''x'')) ''c1'' 7 0 False))
     = [\<lparr>hist_UserID = 7, hist_ConversationID = ''c1'',
         Title = replicate 50 (CHR ''x'') @ ''...'',
         hist_CreatedAt = 0, hist_UpdatedAt = 0\<rparr>]
   \<and> length (replicate 50 (CHR ''x'') @ ''...'') = 53"
  by (simp add: Chat_def scriptedEnv_def emptyWorld_def getOrCreateConversation_def
        GetConversation_def SaveConversation_def saveConversationHistory_def createHistory_def
        historyTitle_def Let_def)

lemma createHistory_histories:
  "chat_histories (createHistory w h) = chat_histories w \<or>
   chat_histories (createHistory w h) = chat_histories w @ [h]"
  by (simp add: createHistory_def)

lemma SaveConversation_histories:
  "chat_histories (snd (SaveConversation w conv)) = chat_histories w"
  by (simp add: SaveConversation_def)

lemma saveConversationHistory_row:
  "chat_histories (saveConversationHistory w now u c m) = chat_histories w \<or>
   (\<exists>h. chat_histories (saveConversationHistory w now u c m) = chat_histories w @ [h]
        \<and> Title h = historyTitle m)"
  by (auto simp: saveConversationHistory_def createHistory_def)

lemma saveStreamConversation_row:
  "chat_histories (saveStreamConversation w now u m reply c) = chat_histories w \<or>
   (\<exists>h. chat_histories (saveStreamConversation w now u m reply c) = chat_histories w @ [h]
        \<and> Title h = historyTitle m)"
proof (cases "GetConversation w c")
  case (Inl err)
  then show ?thesis by (simp add: saveStreamConversation_def)
next
  case (Inr found)
  show ?thesis
  proof (cases found)
    case None
    then show ?thesis
      using Inr
      by (auto simp: saveStreamConversation_def SaveConversation_histories createHistory_def)
  next
    case (Some conv)
    then show ?thesis
      using Inr by (simp add: saveStreamConversation_def SaveConversation_histories)
  qed
qed

lemma Chat_row:
  "chat_histories (snd (Chat env w now m c0 u kb rag)) = chat_histories w \<or>
   (\<exists>h. chat_histories (snd (Chat env w now m c0 u kb rag)) = chat_histories w @ [h]
        \<and> Title h = historyTitle m)"
proof -
  have "chat_histories (saveConversationHistory (snd (SaveConversation w conv)) now u c m)
          = chat_histories w \<or>
        (\<exists>h. chat_histories (saveConversationHistory (snd (SaveConversation w conv)) now u c m)
               = chat_histories w @ [h] \<and> Title h = historyTitle m)" for conv c
    using saveConversationHistory_row[of "snd (SaveConversation w conv)" now u c m]
    by (simp add: SaveConversation_histories)
  then show ?thesis
    by (auto simp: Chat_def Let_def SaveConversation_histories split: sum.splits)
qed

text \<open>
  Claim C9, as amended. For a first user message in which every byte is a character
  (ASCII), or which has at most 50 bytes: whenever \<open>Chat\<close>, \<open>saveConversationHistory\<close> or
  \<open>saveStreamConversation\<close> creates a \<open>ChatHistory\<close> row, it is one row, whose title is
  the message itself when that has at most 50 bytes, and otherwise its first 50
  characters followed by \<open>...\<close>; so the title has at most 53 characters. (What the
  title is for a longer message with multi-byte characters is not stated here.)
\<close>

theorem history_title_truncated:
  assumes "isASCII m \<or> length m \<le> 50"
  shows "(length m \<le> 50 \<longrightarrow> historyTitle m = m)
   \<and> (50 < length m \<longrightarrow> historyTitle m = take 50 m @ ''...'' \<and> length (historyTitle m) = 53
                         \<and> isASCII (historyTitle m))
   \<and> length (historyTitle m) \<le> 53
   \<and> (chat_histories (saveConversationHistory w now u c m) = chat_histories w \<or>
      (\<exists>h. chat_histories (saveConversationHistory w now u c m) = chat_histories w @ [h]
           \<and> Title h = historyTitle m))
   \<and> (chat_histories (saveStreamConversation w now u m reply c) = chat_histories w \<or>
      (\<exists>h. chat_histories (saveStreamConversation w now u m reply c) = chat_histories w @ [h]
           \<and> Title h = historyTitle m))
   \<and> (chat_histories (snd (Chat env w now m c u kb rag)) = chat_histories w \<or>
      (\<exists>h. chat_histories (snd (Chat env w now m c u kb rag)) = chat_histories w @ [h]
           \<and> Title h = historyTitle m))"
proof -
  have "length m \<le> 50 \<longrightarrow> historyTitle m = m" by (simp add: historyTitle_def)
  moreover have "50 < length m \<longrightarrow> historyTitle m = take 50 m @ ''...'' \<and> length (historyTitle m) = 53"
    by (simp add: historyTitle_def)
  moreover have "50 < length m \<longrightarrow> isASCII (historyTitle m)"
  proof
    assume l: "50 < length m"
    then have a: "isASCII m" using assms by simp
    have "list_all (\<lambda>c. of_char c < (128::nat)) (take 50 m)"
      using a by (auto simp: isASCII_def list_all_iff dest: in_set_takeD)
    then show "isASCII (historyTitle m)" using l by (simp add: historyTitle_def isASCII_def)
  qed
  moreover have "length (historyTitle m) \<le> 53" by (simp add: historyTitle_def)
  ultimately show ?thesis
    using saveConversationHistory_row[of w now u c m]
      saveStreamConversation_row[of w now u m reply c] Chat_row[of env w now m c u kb rag]
    by blast
qed

theorem history_title_truncated_witness:
  "(isASCII ''hello'' \<or> length ''hello'' \<le> 50)
   \<and> length ''hello'' \<le> 50 \<and> historyTitle ''hello'' = ''hello''
   \<and> (isASCII (replicate 60 (CHR ''x'')) \<or> length (replicate 60 (CHR ''x'')) \<le> 50)
   \<and> 50 < length (replicate 60 (CHR ''x''))
   \<and> historyTitle (replicate 60 (CHR ''x'')) = replicate 50 (CHR ''x'') @ ''...''
   \<and> length (historyTitle (replicate 60 (CHR ''x''))) = 53"
proof -
  have a: "isASCII ''hello'' \<or> length ''hello'' \<le> 50" by simp
  have b: "isASCII (replicate 60 (CHR ''x'')) \<or> length (replicate 60 (CHR ''x'')) \<le> 50"
    by (simp add: isASCII_def list_all_iff)
  show ?thesis
    using history_title_truncated[OF a] history_title_truncated[OF b] a b by simp
qed

text \<open>
  Outside the amended claim: the cut is made at 50 bytes, not at 50 characters. For a
  message of 17 characters of 3 bytes each (U+65E5, 51 bytes) the title is the first
  16 characters, the first two bytes of the 17th, and the three dots.
\<close>

lemma historyTitle_cuts_inside_character:
  "historyTitle (concat (replicate 17 [CHR 0xE6, CHR 0x97, CHR 0xA5]))
     = concat (replicate 16 [CHR 0xE6, CHR 0x97, CHR 0xA5]) @ [CHR 0xE6, CHR 0x97] @ ''...''"
  by code_simp


subsection \<open>What a streaming turn persists\<close>

lemma collectReply_fst: "fst (collectReply reader acc) = acc @ receivedBeforeEnd reader"
proof (induction reader arbitrary: acc)
  case Nil
  then show ?case by (simp add: receivedBeforeEnd_def)
next
  case (Cons e rest)
  then show ?case by (cases e) (auto simp: receivedBeforeEnd_def)
qed

lemma collectReply_snd:
  "snd (collectReply reader acc) = (if RecvError \<in> set reader then ReadError else CleanEOF)"
proof (induction reader arbitrary: acc)
  case Nil
  then show ?case by simp
next
  case (Cons e rest)
  then show ?case by (cases e) auto
qed

lemma ChatStream_InrD:
  assumes "ChatStream env w now message cid0 userID kbID useRAG = Inr (reader, convID, context)"
  shows "\<exists>found. GetConversation w convID = Inr found"
proof -
  let ?cid = "if cid0 = [] then newUUID env else cid0"
  obtain conv0 where g: "getOrCreateConversation w now ?cid userID = Inr conv0"
    using assms by (cases "getOrCreateConversation w now ?cid userID") (auto simp: ChatStream_def Let_def)
  have "convID = ?cid"
    using assms g by (auto simp: ChatStream_def Let_def split: sum.splits)
  moreover have "\<exists>found. GetConversation w ?cid = Inr found"
    using g by (cases "GetConversation w ?cid") (auto simp: getOrCreateConversation_def)
  ultimately show ?thesis by simp
qed

lemma GetConversation_InrD:
  "GetConversation w cid = Inr found \<Longrightarrow>
   redis_ok w \<and> (case found of None \<Rightarrow> conversations w cid = None
                  | Some conv \<Rightarrow> conversations w cid = Some (JsonConversation conv))"
  by (auto simp: GetConversation_def split: if_splits option.splits stored_conversation.splits)

text \<open>What \<open>saveStreamConversation\<close> stores when Redis answers: for a new conversation the
  user message and the assistant message, for an existing conversation its messages
  and the assistant message.\<close>

lemma saveStreamConversation_stored:
  assumes "wellKeyed w" and "redis_set_ok w" and "GetConversation w cid = Inr found"
  shows "\<exists>conv. conversations (saveStreamConversation w now u m reply cid) cid
                   = Some (JsonConversation conv)
           \<and> Messages conv =
               (case found of
                  None \<Rightarrow> [\<lparr>Role = ''user'', Content = m, Timestamp = now\<rparr>]
                | Some old \<Rightarrow> Messages old)
               @ [\<lparr>Role = ''assistant'', Content = reply, Timestamp = now\<rparr>]"
proof (cases found)
  case None
  then show ?thesis
    using assms(2,3)
    by (simp add: saveStreamConversation_def SaveConversation_def createHistory_def)
next
  case (Some old)
  have st: "conversations w cid = Some (JsonConversation old)"
    using GetConversation_InrD[OF assms(3)] Some by simp
  have "conv_ID old = cid" using assms(1) st by (simp add: wellKeyed_def)
  then show ?thesis
    using assms(2,3) Some
    by (simp add: saveStreamConversation_def SaveConversation_def)
qed

text \<open>When Redis cannot be read or written at the time of the save, the error is logged
  and no conversation is stored.\<close>

lemma saveStreamConversation_failure:
  "\<not> redis_ok w \<or> \<not> redis_set_ok w \<Longrightarrow>
   conversations (saveStreamConversation w now u m reply cid) = conversations w"
  by (auto simp: saveStreamConversation_def GetConversation_def SaveConversation_def
        createHistory_def Let_def split: sum.splits option.splits stored_conversation.splits)

text \<open>
  Claim C7 is not what the code does. The stream delivers \<open>Hel\<close> and then fails with a
  read error (as it does when the turn is aborted). The handler logs the error, leaves
  the loop as it does at the clean end of the stream, and saves the conversation: the
  assistant message stored is \<open>Hel\<close>, built from the partial output.
\<close>

theorem aborted_stream_persists_partial_reply:
  "fst (ChatStreamHandler (scriptedEnv [Message ''Hel'', RecvError]) emptyWorld 5 7 ''hi'' ''c1'' 0 False)
     = Inr ReadError
   \<and> conversations
       (snd (ChatStreamHandler (scriptedEnv [Message ''Hel'', RecvError]) emptyWorld 5 7 ''hi'' ''c1'' 0 False))
       ''c1''
     = Some (JsonConversation
         \<lparr>conv_ID = ''c1'', conv_UserID = 7,
          Messages = [\<lparr>Role = ''user'', Content = ''hi'', Timestamp = 5\<rparr>,
                      \<lparr>Role = ''assistant'', Content = ''Hel'', Timestamp = 5\<rparr>],
          conv_CreatedAt = 5, conv_UpdatedAt = 5\<rparr>)"
  by (simp add: ChatStreamHandler_def ChatStream_def scriptedEnv_def emptyWorld_def
        getOrCreateConversation_def GetConversation_def saveStreamConversation_def
        SaveConversation_def createHistory_def Let_def)

text \<open>
  The same for every stream: once the service has opened a stream for a request with
  a message, the handler runs the save whichever way the receive loop was left; when
  Redis still answers, the conversation stored ends with an assistant message made of
  the contents received before the end or the error.
\<close>

lemma stream_turn_saved_however_it_ends:
  assumes "wellKeyed w" and "redis_set_ok w" and "\<not> redisLostDuringStream env"
      and "message \<noteq> []"
      and "ChatStream env w now message cid0 userID kbID useRAG = Inr (reader, convID, context)"
  shows "\<exists>conv.
           ChatStreamHandler env w now userID message cid0 kbID useRAG
             = (Inr (if RecvError \<in> set reader then ReadError else CleanEOF),
                saveStreamConversation w now userID message (receivedBeforeEnd reader) convID)
         \<and> conversations
             (saveStreamConversation w now userID message (receivedBeforeEnd reader) convID) convID
             = Some (JsonConversation conv)
         \<and> Messages conv \<noteq> []
         \<and> last (Messages conv)
             = \<lparr>Role = ''assistant'', Content = receivedBeforeEnd reader, Timestamp = now\<rparr>"
proof -
  obtain found where g: "GetConversation w convID = Inr found"
    using ChatStream_InrD[OF assms(5)] by blast
  have c: "collectReply reader [] =
             (receivedBeforeEnd reader, if RecvError \<in> set reader then ReadError else CleanEOF)"
    using collectReply_fst[of reader "[]"] collectReply_snd[of reader "[]"]
    by (cases "collectReply reader []") simp
  have h: "ChatStreamHandler env w now userID message cid0 kbID useRAG
             = (Inr (if RecvError \<in> set reader then ReadError else CleanEOF),
                saveStreamConversation w now userID message (receivedBeforeEnd reader) convID)"
    using assms(3,4,5) c by (simp add: ChatStreamHandler_def)
  obtain conv where
    "conversations
       (saveStreamConversation w now userID message (receivedBeforeEnd reader) convID) convID
       = Some (JsonConversation conv)"
    "Messages conv =
       (case found of
          None \<Rightarrow> [\<lparr>Role = ''user'', Content = message, Timestamp = now\<rparr>]
        | Some old \<Rightarrow> Messages old)
       @ [\<lparr>Role = ''assistant'', Content = receivedBeforeEnd reader, Timestamp = now\<rparr>]"
    using saveStreamConversation_stored[OF assms(1,2) g] by blast
  then show ?thesis using h by auto
qed

text \<open>The non-streaming turn stores nothing when the reply fails.\<close>

lemma Chat_failure_unchanged:
  "Chat env w now m cid0 u kb rag = (Inl err, w') \<Longrightarrow> w' = w"
  by (auto simp: Chat_def Let_def split: sum.splits)

subsection \<open>What a turn appends to the conversation\<close>

text \<open>The non-streaming turn appends the user message and the assistant message.\<close>

lemma Chat_appends_pair:
  assumes "wellKeyed w" and "redis_set_ok w"
      and "Chat env w now m cid0 u kb rag = (Inr (reply, cid, context), w')"
  shows "\<exists>found conv. GetConversation w cid = Inr found
           \<and> conversations w' cid = Some (JsonConversation conv)
           \<and> Messages conv =
               (case found of None \<Rightarrow> [] | Some old \<Rightarrow> Messages old)
               @ [\<lparr>Role = ''user'', Content = m, Timestamp = now\<rparr>,
                  \<lparr>Role = ''assistant'', Content = reply, Timestamp = now\<rparr>]"
proof -
  let ?cid = "if cid0 = [] then newUUID env else cid0"
  obtain conv0 where g: "getOrCreateConversation w now ?cid u = Inr conv0"
    using assms(3) by (cases "getOrCreateConversation w now ?cid u") (auto simp: Chat_def Let_def)
  obtain found where f: "GetConversation w ?cid = Inr found"
    using g by (cases "GetConversation w ?cid") (auto simp: getOrCreateConversation_def)
  have c0: "conv_ID conv0 = ?cid"
       "Messages conv0 = (case found of None \<Rightarrow> [] | Some old \<Rightarrow> Messages old)"
    using g f GetConversation_InrD[OF f] assms(1)
    by (auto simp: getOrCreateConversation_def wellKeyed_def split: option.splits)
  let ?ctx = "if rag \<and> kb > 0 then ragContext env m kb else []"
  let ?um = "\<lparr>Role = ''user'', Content = m, Timestamp = now\<rparr>"
  obtain r where r: "generateReply env m ?ctx (Messages conv0 @ [?um]) = Inr r"
    using assms(3) g
    by (cases "generateReply env m ?ctx (Messages conv0 @ [?um])") (auto simp: Chat_def Let_def)
  have res: "reply = r" "cid = ?cid"
    using assms(3) g r by (auto simp: Chat_def Let_def)
  let ?conv2 = "conv0\<lparr>Messages := Messages conv0 @ [?um] @ [\<lparr>Role = ''assistant'', Content = r, Timestamp = now\<rparr>],
                     conv_UpdatedAt := now\<rparr>"
  have "conversations w' ?cid = Some (JsonConversation ?conv2)"
    using assms(2,3) g r c0(1)
    by (auto simp: Chat_def Let_def SaveConversation_def saveConversationHistory_def
          createHistory_def)
  then show ?thesis using f c0(2) res by auto
qed

text \<open>
  Claim C8 fails on the streaming turn of an existing conversation: with the
  conversation \<open>c1\<close> holding one exchange, a streaming turn with the user message \<open>q2\<close>
  and the reply \<open>a2\<close> stores the old messages followed by the assistant message alone;
  the user message \<open>q2\<close> is not stored. The non-streaming \<open>Chat\<close> on the same
  conversation stores both.
\<close>

theorem stream_turn_drops_user_message:
  "conversations
     (snd (ChatStreamHandler (scriptedEnv [Message ''a'', Message ''2''])
            (emptyWorld\<lparr>conversations :=
               [''c1'' \<mapsto> JsonConversation
                  \<lparr>conv_ID = ''c1'', conv_UserID = 7,
                   Messages = [\<lparr>Role = ''user'', Content = ''q1'', Timestamp = 1\<rparr>,
                               \<lparr>Role = ''assistant'', Content = ''a1'', Timestamp = 1\<rparr>],
                   conv_CreatedAt = 1, conv_UpdatedAt = 1\<rparr>]\<rparr>)
            5 7 ''q2'' ''c1'' 0 False))
     ''c1''
   = Some (JsonConversation
        \<lparr>conv_ID = ''c1'', conv_UserID = 7,
         Messages = [\<lparr>Role = ''user'', Content = ''q1'', Timestamp = 1\<rparr>,
                     \<lparr>Role = ''assistant'', Content = ''a1'', Timestamp = 1\<rparr>,
                     \<lparr>Role = ''assistant'', Content = ''a2'', Timestamp = 5\<rparr>],
         conv_CreatedAt = 1, conv_UpdatedAt = 5\<rparr>)
   \<and> conversations
     (snd (Chat (scriptedEnv [])
            (emptyWorld\<lparr>conversations :=
               [''c1'' \<mapsto> JsonConversation
                  \<lparr>conv_ID = ''c1'', conv_UserID = 7,
                   Messages = [\<lparr>Role = ''user'', Content = ''q1'', Timestamp = 1\<rparr>,
                               \<lparr>Role = ''assistant'', Content = ''a1'', Timestamp = 1\<rparr>],
                   conv_CreatedAt = 1, conv_UpdatedAt = 1\<rparr>]\<rparr>)
            5 ''q2'' ''c1'' 7 0 False))
     ''c1''
   = Some (JsonConversation
        \<lparr>conv_ID = ''c1'', conv_UserID = 7,
         Messages = [\<lparr>Role = ''user'', Content = ''q1'', Timestamp = 1\<rparr>,
                     \<lparr>Role = ''assistant'', Content = ''a1'', Timestamp = 1\<rparr>,
                     \<lparr>Role = ''user'', Content = ''q2'', Timestamp = 5\<rparr>,
                     \<lparr>Role = ''assistant'', Content = ''ok'', Timestamp = 5\<rparr>],
         conv_CreatedAt = 1, conv_UpdatedAt = 5\<rparr>)"
  by (simp add: ChatStreamHandler_def ChatStream_def Chat_def scriptedEnv_def emptyWorld_def
        getOrCreateConversation_def GetConversation_def saveStreamConversation_def
        SaveConversation_def createHistory_def saveConversationHistory_def Let_def)




section \<open>Properties of the document service\<close>

subsection \<open>Failed operations change nothing\<close>

lemma UploadDocument_failure_unchanged:
  "UploadDocument env db now filename content kbID userID = (Inl err, db') \<Longrightarrow> db' = db"
  by (auto simp: UploadDocument_def Let_def split: option.splits sum.splits if_splits prod.splits)

lemma DeleteDocument_failure_unchanged:
  "DeleteDocument env db now docID = (Inl err, db') \<Longrightarrow> db' = db"
  by (auto simp: DeleteDocument_def split: option.splits sum.splits if_splits)

lemma applyOperation_failure_unchanged:
  assumes "applyOperation db op = (False, db')"
  shows "db' = db"
proof (cases op)
  case (Upload env now filename content kbID userID)
  then show ?thesis
    using assms UploadDocument_failure_unchanged[of env db now filename content kbID userID]
    by (cases "UploadDocument env db now filename content kbID userID")
       (auto split: sum.splits)
next
  case (Delete env now docID)
  then show ?thesis
    using assms DeleteDocument_failure_unchanged[of env db now docID]
    by (cases "DeleteDocument env db now docID") (auto split: sum.splits)
qed

subsection \<open>The duplicate probe\<close>




subsection \<open>The counter \<open>doc_count\<close>\<close>

lemma nextDocumentID_fresh: "d \<in> set (documents db) \<Longrightarrow> doc_ID d < nextDocumentID db"
proof -
  assume "d \<in> set (documents db)"
  then have "doc_ID d \<le> Max (insert 0 (doc_ID ` set (documents db)))"
    by (intro Max_ge) auto
  then show ?thesis by (simp add: nextDocumentID_def)
qed

lemma UploadDocument_success:
  assumes "UploadDocument env db now filename content kbID userID = (Inr (doc, n), db')"
  shows "documents db' = documents db @ [doc] \<and> doc_ID doc = nextDocumentID db
         \<and> KnowledgeBaseID doc = kbID
         \<and> knowledge_bases db' = map (addToDocCount kbID 1 now) (knowledge_bases db)"
proof -
  obtain r doc0 where t: "uploadTransaction env r db now doc0 kbID = Inr (doc, n, db')"
      and k: "KnowledgeBaseID doc0 = kbID"
    using assms
    by (auto simp: UploadDocument_def Let_def
             split: option.splits sum.splits if_splits prod.splits)
  show ?thesis
    using t k
    by (auto simp: uploadTransaction_def Let_def addToDocCount_def fun_eq_iff
             split: if_splits process_outcome.splits sum.splits)
qed

lemma DeleteDocument_success:
  assumes "DeleteDocument env db now docID = (Inr u, db')"
  shows "\<exists>doc \<in> set (documents db). doc_ID doc = docID
           \<and> documents db' = filter (\<lambda>d. doc_ID d \<noteq> docID) (documents db)
           \<and> knowledge_bases db' = map (addToDocCount (KnowledgeBaseID doc) (- 1) now) (knowledge_bases db)"
proof -
  obtain doc where f: "find (\<lambda>d. doc_ID d = docID) (documents db) = Some doc"
      and t: "deleteTransaction env db now doc = Inr db'"
    using assms
    by (auto simp: DeleteDocument_def split: option.splits sum.splits if_splits)
  have d: "doc \<in> set (documents db)" "doc_ID doc = docID"
    using f by (auto simp: find_Some_iff)
  have "documents db' = filter (\<lambda>d. doc_ID d \<noteq> docID) (documents db)
        \<and> knowledge_bases db' = map (addToDocCount (KnowledgeBaseID doc) (- 1) now) (knowledge_bases db)"
    using t d(2)
    by (auto simp: deleteTransaction_def addToDocCount_def fun_eq_iff
             split: sum.splits if_splits)
  then show ?thesis using d by blast
qed

text \<open>Removing the row with a given key removes one row: keys are unique.\<close>

lemma count_after_delete:
  "distinct (map doc_ID docs) \<Longrightarrow> doc \<in> set docs \<Longrightarrow>
   int (length (filter P (filter (\<lambda>d. doc_ID d \<noteq> doc_ID doc) docs)))
     = int (length (filter P docs)) - (if P doc then 1 else 0)"
proof (induction docs)
  case Nil
  then show ?case by simp
next
  case (Cons d ds)
  show ?case
  proof (cases "d = doc")
    case True
    have "doc_ID d \<notin> doc_ID ` set ds" using Cons.prems(1) by simp
    then have "\<forall>x \<in> set ds. doc_ID x \<noteq> doc_ID doc" using True by (metis imageI)
    then have "filter (\<lambda>d. doc_ID d \<noteq> doc_ID doc) ds = ds" by (simp add: filter_id_conv)
    then show ?thesis using True by simp
  next
    case False
    then have in_ds: "doc \<in> set ds" using Cons.prems(2) by simp
    moreover have "doc_ID d \<notin> doc_ID ` set ds" using Cons.prems(1) by simp
    ultimately have ne: "doc_ID d \<noteq> doc_ID doc" by (metis imageI)
    have ih: "int (length (filter P (filter (\<lambda>d. doc_ID d \<noteq> doc_ID doc) ds)))
                = int (length (filter P ds)) - (if P doc then 1 else 0)"
      using Cons.IH in_ds Cons.prems(1) by simp
    show ?thesis using ih ne by (cases "P doc"; cases "P d"; simp)
  qed
qed

lemma UploadDocument_invariant:
  assumes "primaryKeyUnique db" "docCountAccurate db"
  shows "primaryKeyUnique (snd (UploadDocument env db now filename content kbID userID))
         \<and> docCountAccurate (snd (UploadDocument env db now filename content kbID userID))"
proof (cases "UploadDocument env db now filename content kbID userID")
  case (Pair res db')
  show ?thesis
  proof (cases res)
    case (Inl err)
    then have "db' = db" using Pair UploadDocument_failure_unchanged by blast
    then show ?thesis using Pair assms by simp
  next
    case (Inr dn)
    obtain doc n where dn: "dn = (doc, n)" by (cases dn)
    note s = UploadDocument_success[OF Pair[unfolded Inr dn]]
    have fresh: "doc_ID doc \<notin> doc_ID ` set (documents db)"
      using nextDocumentID_fresh[of _ db] s by force
    have pk: "primaryKeyUnique db'"
      using assms(1) s fresh by (simp add: primaryKeyUnique_def)
    have cnt: "documentsOf db' k = documentsOf db k + (if k = kbID then 1 else 0)" for k
      using s by (simp add: documentsOf_def)
    have "docCountAccurate db'"
      using assms(2) s cnt by (auto simp: docCountAccurate_def addToDocCount_def)
    then show ?thesis using Pair pk by simp
  qed
qed

lemma DeleteDocument_invariant:
  assumes "primaryKeyUnique db" "docCountAccurate db"
  shows "primaryKeyUnique (snd (DeleteDocument env db now docID))
         \<and> docCountAccurate (snd (DeleteDocument env db now docID))"
proof (cases "DeleteDocument env db now docID")
  case (Pair res db')
  show ?thesis
  proof (cases res)
    case (Inl err)
    then have "db' = db" using Pair DeleteDocument_failure_unchanged by blast
    then show ?thesis using Pair assms by simp
  next
    case (Inr u)
    obtain doc where d: "doc \<in> set (documents db)" "doc_ID doc = docID"
        and docs: "documents db' = filter (\<lambda>d. doc_ID d \<noteq> docID) (documents db)"
        and kbs: "knowledge_bases db' =
                    map (addToDocCount (KnowledgeBaseID doc) (- 1) now) (knowledge_bases db)"
      using DeleteDocument_success[OF Pair[unfolded Inr]] by blast
    have pk: "primaryKeyUnique db'"
      using assms(1) docs by (simp add: primaryKeyUnique_def distinct_map_filter)
    have cnt: "int (documentsOf db' k)
                 = int (documentsOf db k) - (if k = KnowledgeBaseID doc then 1 else 0)" for k
      using count_after_delete[OF assms(1)[unfolded primaryKeyUnique_def] d(1),
              of "\<lambda>d. KnowledgeBaseID d = k"] docs d(2)
      by (auto simp: documentsOf_def)
    have "docCountAccurate db'"
      using assms(2) kbs cnt by (auto simp: docCountAccurate_def addToDocCount_def)
    then show ?thesis using Pair pk by simp
  qed
qed

lemma applyOperation_invariant:
  assumes "primaryKeyUnique db" "docCountAccurate db"
  shows "primaryKeyUnique (snd (applyOperation db op))
         \<and> docCountAccurate (snd (applyOperation db op))"
proof (cases op)
  case (Upload env now filename content kbID userID)
  have "snd (applyOperation db op) = snd (UploadDocument env db now filename content kbID userID)"
    using Upload by (auto split: prod.splits sum.splits)
  then show ?thesis using UploadDocument_invariant[OF assms] by simp
next
  case (Delete env now docID)
  have "snd (applyOperation db op) = snd (DeleteDocument env db now docID)"
    using Delete by (auto split: prod.splits sum.splits)
  then show ?thesis using DeleteDocument_invariant[OF assms] by simp
qed

lemma runOperations_invariant:
  "primaryKeyUnique db \<Longrightarrow> docCountAccurate db \<Longrightarrow>
   primaryKeyUnique (runOperations db ops) \<and> docCountAccurate (runOperations db ops)"
proof (induction ops arbitrary: db)
  case Nil
  then show ?case by simp
next
  case (Cons op ops)
  then show ?case using applyOperation_invariant[of db op] by simp
qed

text \<open>
  Claim C2. Starting from a store in which every \<open>doc_count\<close> is the number of documents
  of its knowledge base (and the keys of the documents are unique, as the primary key
  makes them), after any sequence of \<open>UploadDocument\<close> and \<open>DeleteDocument\<close> calls,
  whatever each call meets, every \<open>doc_count\<close> is again the number of documents of its
  knowledge base. The row and the counter are written in one transaction: a call that
  fails leaves the whole store as it was.
\<close>

theorem doc_count_accurate:
  assumes "primaryKeyUnique db" and "docCountAccurate db"
  shows "docCountAccurate (runOperations db ops)
         \<and> primaryKeyUnique (runOperations db ops)
         \<and> (\<forall>kb \<in> set (knowledge_bases (runOperations db ops)).
               DocCount kb = int (length (filter (\<lambda>d. KnowledgeBaseID d = kb_ID kb)
                                                 (documents (runOperations db ops)))))
         \<and> (\<forall>op db'. applyOperation db op = (False, db') \<longrightarrow> db' = db)"
  using runOperations_invariant[OF assms, of ops] applyOperation_failure_unchanged[of db]
  by (auto simp: docCountAccurate_def documentsOf_def)


text \<open>The witness: two uploads into a new knowledge base with a rejected duplicate in
  between, then the deletion of the first document; one document is left and
  \<open>doc_count\<close> is 1. The deletion of a document that does not exist fails and changes
  nothing.\<close>

theorem doc_count_accurate_witness:
  "primaryKeyUnique freshStore \<and> docCountAccurate freshStore
   \<and> map doc_ID (documents (runOperations freshStore sampleOperations)) = [2]
   \<and> map DocCount (knowledge_bases (runOperations freshStore sampleOperations)) = [1]
   \<and> docCountAccurate (runOperations freshStore sampleOperations)
   \<and> applyOperation freshStore (Delete workingEnv 1 5) = (False, freshStore)"
proof -
  have inv: "primaryKeyUnique freshStore" "docCountAccurate freshStore"
    by (simp_all add: primaryKeyUnique_def docCountAccurate_def freshStore_def kb1_def
          documentsOf_def)
  have ev: "map doc_ID (documents (runOperations freshStore sampleOperations)) = [2]
            \<and> map DocCount (knowledge_bases (runOperations freshStore sampleOperations)) = [1]"
    by (simp add: sampleOperations_def UploadDocument_def DeleteDocument_def workingEnv_def
          freshStore_def kb1_def ValidateFileType_def filepathExt_def toLowerASCII_def Let_def
          readLimited_def uploadTransaction_def deleteTransaction_def AddDocuments_def
          DeleteByDocument_def connectedRetriever_def nextDocumentID_def standInDigest_def)
  have f: "applyOperation freshStore (Delete workingEnv 1 5) = (False, freshStore)"
    by (simp add: DeleteDocument_def workingEnv_def freshStore_def)
  show ?thesis
    using doc_count_accurate[OF inv, of sampleOperations] inv ev f by blast
qed

subsection \<open>Deleting a document when the vector store fails\<close>

text \<open>
  Claim C6 is not what the code does. The service of the server always has a
  retriever (\<open>NewMilvusRetriever\<close> returns one also when Milvus cannot be reached), so
  an unavailable vector store is a retriever that is not connected. Then
  \<open>DeleteByDocument\<close> returns an error, \<open>DeleteDocument\<close> returns it wrapped, and the
  transaction is rolled back: the document row is still there and \<open>doc_count\<close> is still
  1.
\<close>

theorem delete_disconnected_aborts:
  "DeleteDocument disconnectedEnv storeWithDocument 9 1
     = (Inl (FailedToDeleteFromVectorDatabase MilvusNotConnected), storeWithDocument)
   \<and> theRetriever disconnectedEnv = Some (connectedRetriever\<lparr>isConnected := False\<rparr>)
   \<and> map doc_ID (documents storeWithDocument) = [1]
   \<and> map DocCount (knowledge_bases storeWithDocument) = [1]"
  by (simp add: DeleteDocument_def deleteTransaction_def DeleteByDocument_def
        disconnectedEnv_def workingEnv_def connectedRetriever_def storeWithDocument_def kb1_def)

lemma DeleteDocument_found:
  assumes "\<not> docLookupFails env" and "find (\<lambda>d. doc_ID d = docID) (documents db) = Some doc"
  shows "DeleteDocument env db now docID =
           (case deleteTransaction env db now doc of
              Inl err \<Rightarrow> (Inl err, db)
            | Inr db' \<Rightarrow> (if commitFails env then (Inl CommitFailed, db) else (Inr (), db')))"
  using assms by (simp add: DeleteDocument_def)

text \<open>The same for every store and every document: with a retriever whose
  \<open>DeleteByDocument\<close> fails, as it does whenever the adapter is not connected, nothing is
  deleted.\<close>

lemma DeleteDocument_vector_failure:
  assumes "theRetriever env = Some r" and "DeleteByDocument r = Inl err"
  shows "snd (DeleteDocument env db now docID) = db
         \<and> (\<not> docLookupFails env \<and> find (\<lambda>d. doc_ID d = docID) (documents db) = Some doc
              \<longrightarrow> DeleteDocument env db now docID
                    = (Inl (FailedToDeleteFromVectorDatabase err), db))"
  using assms
  by (auto simp: DeleteDocument_def deleteTransaction_def split: option.splits)

lemma DeleteByDocument_disconnected:
  "\<not> isConnected r \<Longrightarrow> DeleteByDocument r = Inl MilvusNotConnected"
  by (simp add: DeleteByDocument_def)

text \<open>The branch that does go on without the vector store is the one of a service without
  retriever (\<open>s.retriever == nil\<close>): the deletion of the vectors is skipped with a
  warning, the row is deleted and \<open>doc_count\<close> is decremented.\<close>

lemma DeleteDocument_without_retriever:
  assumes "\<not> docLookupFails env"
      and "find (\<lambda>d. doc_ID d = docID) (documents db) = Some doc"
      and "theRetriever env = None"
      and "\<not> deleteRowFails env" and "\<not> updateFails env" and "\<not> commitFails env"
  shows "DeleteDocument env db now docID =
           (Inr (), db\<lparr>documents := filter (\<lambda>d. doc_ID d \<noteq> docID) (documents db),
                       knowledge_bases :=
                         map (addToDocCount (KnowledgeBaseID doc) (- 1) now)
                             (knowledge_bases db)\<rparr>)"
proof -
  have id: "doc_ID doc = docID" using assms(2) by (auto simp: find_Some_iff)
  have m: "(\<lambda>kb. if kb_ID kb = KnowledgeBaseID doc
                 then kb\<lparr>DocCount := DocCount kb - 1, kb_UpdatedAt := now\<rparr> else kb)
           = addToDocCount (KnowledgeBaseID doc) (- 1) now"
    by (auto simp: addToDocCount_def fun_eq_iff)
  show ?thesis
    using assms(3-6) id m
    by (simp add: DeleteDocument_found[OF assms(1,2)] deleteTransaction_def)
qed

end
